theory Spec2Isabelle
  imports Complex_Main "HOL-Library.Monad_Syntax" "HOL-Library.Log_Nat"
begin

section \<open>Glucose aggregation endpoints and the correlation trend line\<close>

text \<open>
  The development embeds the statistical routes of the dashboard backend
  (\<^verbatim>\<open>get_glucose_daily\<close>, \<^verbatim>\<open>get_glucose_time_in_range\<close>, \<^verbatim>\<open>get_glucose_agp\<close>) and the
  frontend helper \<^verbatim>\<open>linearRegression\<close>.

  Conventions of the embedding:
  \<^item> Python integers are \<open>int\<close>. A Python \<^verbatim>\<open>float\<close> and a JavaScript number is a
    double: a rational number, and every arithmetic operation of the repository's own
    code on doubles is the exact operation followed by the rounding \<open>b64\<close> to the
    nearest double (ties to the even significand). Overflow and subnormal numbers are
    outside the model; no value of the Python routes comes near either;
  \<^item> the two library aggregates, SQL \<^verbatim>\<open>AVG\<close> and numpy's \<^verbatim>\<open>percentile\<close>, are code
    outside the repository and are modelled by the exact value of their documented
    rule (the mean, the linear interpolation between order statistics); the double
    a library returns lies within rounding error of that value;
  \<^item> a raised exception (\<^verbatim>\<open>ZeroDivisionError\<close>, \<^verbatim>\<open>KeyError\<close>, \<^verbatim>\<open>ValueError\<close>) is the
    value \<open>None\<close> of an option type, and a JavaScript \<^verbatim>\<open>null\<close> result is \<open>None\<close> too;
  \<^item> a naive \<^verbatim>\<open>datetime\<close> is the number of seconds since a fixed epoch, so that its
    calendar date is a day number and its \<^verbatim>\<open>.hour\<close> always lies in \<open>0..23\<close>;
  \<^item> the table \<^verbatim>\<open>glucose_readings\<close> is the list of its rows, and the helpers
    \<^verbatim>\<open>_date_range\<close>/\<^verbatim>\<open>_dt_range\<close>, which only parse the query window, are replaced by the
    window bounds \<open>start_dt\<close> and \<open>end_dt\<close> they produce.
\<close>

subsection \<open>Python primitives\<close>

text \<open>
  Built-in \<^verbatim>\<open>round(x)\<close> with one argument: the nearest integer, and on a tie (a
  fractional part of exactly one half) the even neighbour.
\<close>

definition py_round :: "rat \<Rightarrow> int" where
  "py_round x =
     (let f = \<lfloor>x\<rfloor>; d = x - of_int f
      in if d < 1 / 2 then f
         else if 1 / 2 < d then f + 1
         else if even f then f else f + 1)"

text \<open>Built-in \<^verbatim>\<open>int(x)\<close> on a float: truncation toward zero.\<close>

definition py_int :: "rat \<Rightarrow> int" where
  "py_int x = (if 0 \<le> x then \<lfloor>x\<rfloor> else \<lceil>x\<rceil>)"

subsection \<open>Doubles\<close>

text \<open>
  The binade of a non-zero rational: the exponent \<open>e\<close> with \<open>2^e \<le> |x| < 2^(e+1)\<close>,
  found from the bit lengths of numerator and denominator.
\<close>

definition binade :: "rat \<Rightarrow> int" where
  "binade x =
     (let (p, q) = quotient_of \<bar>x\<bar>; k = bitlen p - bitlen q
      in if 2 powi k \<le> \<bar>x\<bar> then k else k - 1)"

text \<open>
  Rounding to binary64: the nearest number with a 53-bit significand, a tie going to the
  even significand.
\<close>

definition b64 :: "rat \<Rightarrow> rat" where
  "b64 x =
     (if x = 0 then 0
      else (let u = 2 powi (binade x - 52) in of_int (py_round (x / u)) * u))"

text \<open>The arithmetic of doubles: \<^verbatim>\<open>x + y\<close>, \<^verbatim>\<open>x - y\<close>, \<^verbatim>\<open>x * y\<close> and \<^verbatim>\<open>x / y\<close>.\<close>

definition f_add :: "rat \<Rightarrow> rat \<Rightarrow> rat" where
  "f_add x y = b64 (x + y)"

definition f_sub :: "rat \<Rightarrow> rat \<Rightarrow> rat" where
  "f_sub x y = b64 (x - y)"

definition f_mul :: "rat \<Rightarrow> rat \<Rightarrow> rat" where
  "f_mul x y = b64 (x * y)"

definition f_div :: "rat \<Rightarrow> rat \<Rightarrow> rat" where
  "f_div x y = b64 (x / y)"

text \<open>
  Built-in \<^verbatim>\<open>round(x, 1)\<close> on a double: the exact value of \<open>x\<close> is rounded to one
  decimal place (a tie going to the even digit) and the result is the double nearest
  that decimal.
\<close>

definition py_round_1 :: "rat \<Rightarrow> rat" where
  "py_round_1 x = b64 (of_int (py_round (x * 10)) / 10)"

text \<open>
  True division \<^verbatim>\<open>a / b\<close> of two integers: the double nearest the exact quotient; a zero
  divisor raises.
\<close>

definition py_truediv :: "int \<Rightarrow> int \<Rightarrow> rat option" where
  "py_truediv a b = (if b = 0 then None else Some (b64 (of_int a / of_int b)))"

subsection \<open>The reading store\<close>

text \<open>
  A row of \<^verbatim>\<open>glucose_readings\<close>: the columns \<^verbatim>\<open>timestamp\<close> and \<^verbatim>\<open>value\<close> (an
  \<^verbatim>\<open>Integer\<close>, mg/dL). The columns \<^verbatim>\<open>id\<close> and \<^verbatim>\<open>source\<close> play no part in the three
  routes (\<^verbatim>\<open>func.count(id)\<close> counts the rows of a group, the key never being null).
\<close>

record reading =
  timestamp :: int
  reading_value :: int

text \<open>\<^verbatim>\<open>func.date(ts)\<close> and \<^verbatim>\<open>ts.hour\<close> of a timestamp counted in seconds.\<close>

definition date_of :: "int \<Rightarrow> int" where
  "date_of ts = ts div 86400"

definition hour_of :: "int \<Rightarrow> nat" where
  "hour_of ts = nat ((ts mod 86400) div 3600)"

text \<open>
  The query shared by the three routes:
  \<^verbatim>\<open>filter(timestamp >= start_dt, timestamp < end_dt)\<close>.
\<close>

definition query_readings :: "int \<Rightarrow> int \<Rightarrow> reading list \<Rightarrow> reading list" where
  "query_readings start_dt end_dt db =
     filter (\<lambda>r. start_dt \<le> timestamp r \<and> timestamp r < end_dt) db"

subsection \<open>Time in range\<close>

record range_breakdown =
  total_readings :: int
  in_range_percent :: rat
  low_percent :: rat
  high_percent :: rat
  very_low_percent :: rat
  very_high_percent :: rat

text \<open>The local variables of \<^verbatim>\<open>get_glucose_time_in_range\<close> after its counting block.\<close>

record tir_counts =
  c_total :: int
  c_low :: int
  c_high :: int
  c_very_low :: int
  c_very_high :: int
  c_in_range :: int

text \<open>\<^verbatim>\<open>sum(1 for r in readings if cond(r))\<close>\<close>

definition count_if :: "(reading \<Rightarrow> bool) \<Rightarrow> reading list \<Rightarrow> int" where
  "count_if cond readings = sum_list (map (\<lambda>r. 1) (filter cond readings))"

definition count_readings :: "int \<Rightarrow> int \<Rightarrow> reading list \<Rightarrow> tir_counts" where
  "count_readings low_threshold high_threshold readings =
     (let total_n = int (length readings);
          low = count_if (\<lambda>r. reading_value r < low_threshold) readings;
          high = count_if (\<lambda>r. reading_value r > high_threshold) readings;
          very_low = count_if (\<lambda>r. reading_value r < 54) readings;
          very_high = count_if (\<lambda>r. reading_value r > 250) readings;
          in_range = total_n - low - high
      in \<lparr>c_total = total_n, c_low = low, c_high = high, c_very_low = very_low,
          c_very_high = very_high, c_in_range = in_range\<rparr>)"

text \<open>
  \<^verbatim>\<open>round(cnt / total * 100, 1)\<close>; the source's \<^verbatim>\<open>total\<close> is written \<open>total_n\<close>, the
  name \<open>total\<close> being a constant of HOL.
\<close>

definition percent_of :: "int \<Rightarrow> int \<Rightarrow> rat option" where
  "percent_of cnt total_n =
     do { q \<leftarrow> py_truediv cnt total_n; Some (py_round_1 (f_mul q 100)) }"

definition get_glucose_time_in_range ::
  "int \<Rightarrow> int \<Rightarrow> int \<Rightarrow> int \<Rightarrow> reading list \<Rightarrow> range_breakdown option" where
  "get_glucose_time_in_range start_dt end_dt low_threshold high_threshold db =
     (let readings = query_readings start_dt end_dt db
      in if readings = [] then
           Some \<lparr>total_readings = 0, in_range_percent = 0, low_percent = 0,
                 high_percent = 0, very_low_percent = 0, very_high_percent = 0\<rparr>
         else
           (let c = count_readings low_threshold high_threshold readings
            in do {
              irp \<leftarrow> percent_of (c_in_range c) (c_total c);
              lp \<leftarrow> percent_of (c_low c) (c_total c);
              hp \<leftarrow> percent_of (c_high c) (c_total c);
              vlp \<leftarrow> percent_of (c_very_low c) (c_total c);
              vhp \<leftarrow> percent_of (c_very_high c) (c_total c);
              Some \<lparr>total_readings = c_total c, in_range_percent = irp, low_percent = lp,
                    high_percent = hp, very_low_percent = vlp, very_high_percent = vhp\<rparr>
            }))"

subsection \<open>Daily summaries\<close>

text \<open>
  A row of the grouped query of \<^verbatim>\<open>get_glucose_daily\<close>:
  \<^verbatim>\<open>func.date(timestamp), func.avg(value), func.min(value), func.max(value), func.count(id)\<close>.
\<close>

record daily_row =
  row_date :: int
  row_avg :: rat
  row_min :: int
  row_max :: int
  row_count :: int

text \<open>
  The aggregates of one group. SQL groups are never empty; an empty list of values gives
  no row.
\<close>

definition aggregate_group :: "int \<Rightarrow> int list \<Rightarrow> daily_row option" where
  "aggregate_group d vs =
     (case vs of
        [] \<Rightarrow> None
      | v # ws \<Rightarrow>
          Some \<lparr>row_date = d,
                row_avg = of_int (sum_list vs) / of_int (int (length vs)),
                row_min = fold min ws v,
                row_max = fold max ws v,
                row_count = int (length vs)\<rparr>)"

text \<open>
  \<^verbatim>\<open>.group_by(func.date(timestamp)).order_by(func.date(timestamp)).all()\<close>: one row for
  each date that occurs among the readings, dates ascending.
\<close>

definition daily_query :: "reading list \<Rightarrow> daily_row list" where
  "daily_query readings =
     List.map_filter
       (\<lambda>d. aggregate_group d
              (map reading_value (filter (\<lambda>r. date_of (timestamp r) = d) readings)))
       (sort (remdups (map (\<lambda>r. date_of (timestamp r)) readings)))"

text \<open>
  An element of the returned list; \<^verbatim>\<open>min\<close> and \<^verbatim>\<open>max\<close> are the fields \<open>min_value\<close> and
  \<open>max_value\<close>, and the date is kept as a day number where the route prints it.
\<close>

record daily_summary =
  date :: int
  avg :: int
  min_value :: int
  max_value :: int
  count :: int

definition get_glucose_daily :: "int \<Rightarrow> int \<Rightarrow> reading list \<Rightarrow> daily_summary list" where
  "get_glucose_daily start_dt end_dt db =
     (let results = daily_query (query_readings start_dt end_dt db)
      in map (\<lambda>r. \<lparr>date = row_date r, avg = py_round (row_avg r), min_value = row_min r,
                     max_value = row_max r, count = row_count r\<rparr>) results)"

subsection \<open>Ambulatory glucose profile\<close>

text \<open>
  \<^verbatim>\<open>np.percentile(arr, q)\<close> is library code (numpy), outside the repository. It is
  modelled by numpy's default method, linear interpolation between order statistics: on
  the sorted sample of size \<open>n\<close> the virtual index is \<open>q / 100 * (n - 1)\<close>, and the result
  interpolates between the order statistics below and above it. A percentage outside
  \<open>0..100\<close> raises, and an empty sample has no percentile (the route never passes one).
\<close>

definition interpolate :: "int list \<Rightarrow> rat \<Rightarrow> rat" where
  "interpolate a pos =
     (let prev = nat \<lfloor>pos\<rfloor>;
          nxt = min (prev + 1) (length a - 1);
          gamma = pos - of_nat prev
      in of_int (a ! prev) + of_int (a ! nxt - a ! prev) * gamma)"

definition np_percentile :: "int list \<Rightarrow> rat \<Rightarrow> rat option" where
  "np_percentile arr q =
     (if q < 0 \<or> 100 < q \<or> arr = [] then None
      else Some (interpolate (sort arr) (q / 100 * of_nat (length arr - 1))))"

text \<open>\<^verbatim>\<open>hourly_values: dict = {h: [] for h in range(24)}\<close>\<close>

definition initial_hourly_values :: "nat \<rightharpoonup> int list" where
  "initial_hourly_values = map_of (map (\<lambda>h. (h, [])) [0..<24])"

text \<open>
  The grouping loop \<^verbatim>\<open>hourly_values[hour].append(r.value)\<close>; a key that is not in the
  dictionary raises \<^verbatim>\<open>KeyError\<close>.
\<close>

fun group_by_hour :: "reading list \<Rightarrow> (nat \<rightharpoonup> int list) \<Rightarrow> (nat \<rightharpoonup> int list) option" where
  "group_by_hour [] hourly_values = Some hourly_values"
| "group_by_hour (r # rs) hourly_values =
     (let hour = hour_of (timestamp r)
      in case hourly_values hour of
           None \<Rightarrow> None
         | Some vs \<Rightarrow> group_by_hour rs (hourly_values(hour \<mapsto> vs @ [reading_value r])))"

text \<open>
  An entry of the \<^verbatim>\<open>hourly\<close> list (its \<^verbatim>\<open>count\<close> is the field \<open>hour_count\<close>) and the
  response. The response's \<^verbatim>\<open>start_date\<close> and \<^verbatim>\<open>end_date\<close> echo the parsed window and are
  left out.
\<close>

record hourly_stat =
  hour :: nat
  p10 :: "int option"
  p25 :: "int option"
  median :: "int option"
  p75 :: "int option"
  p90 :: "int option"
  hour_count :: int

record agp_response =
  agp_total_readings :: int
  hourly :: "hourly_stat list"

text \<open>The body of the loop over \<^verbatim>\<open>range(24)\<close>: the entry of one hour.\<close>

definition hour_entry :: "nat \<Rightarrow> int list \<Rightarrow> hourly_stat option" where
  "hour_entry h vals =
     (if vals = [] then
        Some \<lparr>hour = h, p10 = None, p25 = None, median = None, p75 = None, p90 = None,
              hour_count = 0\<rparr>
      else do {
        a \<leftarrow> np_percentile vals 10;
        b \<leftarrow> np_percentile vals 25;
        c \<leftarrow> np_percentile vals 50;
        d \<leftarrow> np_percentile vals 75;
        e \<leftarrow> np_percentile vals 90;
        Some \<lparr>hour = h, p10 = Some (py_int a), p25 = Some (py_int b),
              median = Some (py_int c), p75 = Some (py_int d), p90 = Some (py_int e),
              hour_count = int (length vals)\<rparr>
      })"

fun hourly_loop :: "nat list \<Rightarrow> (nat \<rightharpoonup> int list) \<Rightarrow> hourly_stat list option" where
  "hourly_loop [] hourly_values = Some []"
| "hourly_loop (h # hs) hourly_values =
     do {
       vals \<leftarrow> hourly_values h;
       entry \<leftarrow> hour_entry h vals;
       rest \<leftarrow> hourly_loop hs hourly_values;
       Some (entry # rest)
     }"

definition get_glucose_agp :: "int \<Rightarrow> int \<Rightarrow> reading list \<Rightarrow> agp_response option" where
  "get_glucose_agp start_dt end_dt db =
     (let readings = query_readings start_dt end_dt db
      in do {
        hourly_values \<leftarrow> group_by_hour readings initial_hourly_values;
        hourly_stats \<leftarrow> hourly_loop [0..<24] hourly_values;
        Some \<lparr>agp_total_readings = int (length readings), hourly = hourly_stats\<rparr>
      })"

subsection \<open>Trend line of the correlation page\<close>

text \<open>
  A \<^verbatim>\<open>CorrelationPoint\<close>; its \<^verbatim>\<open>x\<close> and \<^verbatim>\<open>y\<close> are doubles, here the fields \<open>pt_x\<close> and
  \<open>pt_y\<close>.
\<close>

record correlation_point =
  pt_date :: string
  pt_x :: rat
  pt_y :: rat

record regression_sums =
  sumX :: rat
  sumY :: rat
  sumXY :: rat
  sumX2 :: rat

record regression_line =
  slope :: rat
  intercept :: rat

text \<open>
  The accumulating loop
  \<^verbatim>\<open>for (const p of points) { sumX += p.x; sumY += p.y; sumXY += p.x * p.y; sumX2 += p.x * p.x; }\<close>,
  each operation rounding once.
\<close>

fun accumulate :: "correlation_point list \<Rightarrow> regression_sums \<Rightarrow> regression_sums" where
  "accumulate [] s = s"
| "accumulate (p # ps) s =
     accumulate ps
       \<lparr>sumX = f_add (sumX s) (pt_x p), sumY = f_add (sumY s) (pt_y p),
        sumXY = f_add (sumXY s) (f_mul (pt_x p) (pt_y p)),
        sumX2 = f_add (sumX2 s) (f_mul (pt_x p) (pt_x p))\<rparr>"

text \<open>
  The function. Its local variables \<^verbatim>\<open>slope\<close> and \<^verbatim>\<open>intercept\<close> are written \<open>m\<close> and \<open>c\<close>,
  the names being taken by the fields of the result; \<^verbatim>\<open>null\<close> is \<open>None\<close>. The test
  \<^verbatim>\<open>denom === 0\<close> is made on the rounded \<open>denom\<close>.
\<close>

definition linearRegression :: "correlation_point list \<Rightarrow> regression_line option" where
  "linearRegression points =
     (if length points < 2 then None
      else
        (let n = of_nat (length points);
             s = accumulate points \<lparr>sumX = 0, sumY = 0, sumXY = 0, sumX2 = 0\<rparr>;
             denom = f_sub (f_mul n (sumX2 s)) (f_mul (sumX s) (sumX s))
         in if denom = 0 then None
            else
              (let m = f_div (f_sub (f_mul n (sumXY s)) (f_mul (sumX s) (sumY s))) denom;
                   c = f_div (f_sub (sumY s) (f_mul m (sumX s))) n
               in Some \<lparr>slope = m, intercept = c\<rparr>)))"

subsection \<open>Closed forms of the loop bodies\<close>

text \<open>
  Each of these is shown below to be what the corresponding piece of the model computes;
  the proofs go through them.
\<close>

text \<open>
  The number of tenths that \<^verbatim>\<open>round(cnt / total * 100, 1)\<close> settles on, and the double it
  returns.
\<close>

definition percent_tenths :: "int \<Rightarrow> int \<Rightarrow> int" where
  "percent_tenths cnt total_n = py_round (f_mul (b64 (of_int cnt / of_int total_n)) 100 * 10)"

definition percent_value :: "int \<Rightarrow> int \<Rightarrow> rat" where
  "percent_value cnt total_n = b64 (of_int (percent_tenths cnt total_n) / 10)"

text \<open>
  The row of a non-empty group in closed form.
\<close>

definition group_row :: "int \<Rightarrow> int list \<Rightarrow> daily_row" where
  "group_row d vs =
     \<lparr>row_date = d, row_avg = of_int (sum_list vs) / of_int (int (length vs)),
      row_min = fold min (tl vs) (hd vs), row_max = fold max (tl vs) (hd vs),
      row_count = int (length vs)\<rparr>"

text \<open>
  The linear-interpolation percentile of a non-empty sample, as a plain number.
\<close>

definition linear_percentile :: "int list \<Rightarrow> rat \<Rightarrow> rat" where
  "linear_percentile vs q = interpolate (sort vs) (q / 100 * of_nat (length vs - 1))"

text \<open>
  The entry the loop body builds for hour \<open>h\<close>, in closed form.
\<close>

definition entry_of :: "nat \<Rightarrow> int list \<Rightarrow> hourly_stat" where
  "entry_of h vs =
     (if vs = [] then
        \<lparr>hour = h, p10 = None, p25 = None, median = None, p75 = None, p90 = None,
         hour_count = 0\<rparr>
      else
        \<lparr>hour = h, p10 = Some (py_int (linear_percentile vs 10)),
         p25 = Some (py_int (linear_percentile vs 25)),
         median = Some (py_int (linear_percentile vs 50)),
         p75 = Some (py_int (linear_percentile vs 75)),
         p90 = Some (py_int (linear_percentile vs 90)),
         hour_count = int (length vs)\<rparr>)"

text \<open>
  The entry of an hour without observations.
\<close>

definition empty_entry :: "nat \<Rightarrow> hourly_stat" where
  "empty_entry h =
     \<lparr>hour = h, p10 = None, p25 = None, median = None, p75 = None, p90 = None,
      hour_count = 0\<rparr>"

subsection \<open>Vocabulary of the statements\<close>

text \<open>
  A reading whose value lies strictly between the two thresholds, the high one being the
  smaller.
\<close>

definition strictly_between :: "int \<Rightarrow> int \<Rightarrow> reading \<Rightarrow> bool" where
  "strictly_between high_threshold low_threshold r
     \<longleftrightarrow> high_threshold < reading_value r \<and> reading_value r < low_threshold"

text \<open>
  Rounding to the nearest whole unit with ties rounded upward, the policy the
  specification names for the daily average.
\<close>

definition round_half_up :: "rat \<Rightarrow> int" where
  "round_half_up x = \<lfloor>x + 1 / 2\<rfloor>"

text \<open>
  The values of the readings that fall on calendar date \<open>d\<close>, in store order.
\<close>

definition values_on_date :: "int \<Rightarrow> reading list \<Rightarrow> int list" where
  "values_on_date d readings =
     map reading_value (filter (\<lambda>r. date_of (timestamp r) = d) readings)"

text \<open>
  The values observed in hour-of-day \<open>h\<close>, over all days, in store order.
\<close>

definition values_at_hour :: "nat \<Rightarrow> reading list \<Rightarrow> int list" where
  "values_at_hour h readings =
     map reading_value (filter (\<lambda>r. hour_of (timestamp r) = h) readings)"





text \<open>
  All points share one x-value (zero variance of x); true of the empty list.
\<close>

definition all_x_equal :: "correlation_point list \<Rightarrow> bool" where
  "all_x_equal points =
     (case points of [] \<Rightarrow> True | p # ps \<Rightarrow> list_all (\<lambda>q. pt_x q = pt_x p) ps)"

subsection \<open>Sample stores and point lists\<close>

text \<open>Three readings of one day (08:00, 12:00, 20:00), one in each bucket.\<close>

definition db3 :: "reading list" where
  "db3 = [\<lparr>timestamp = 28800, reading_value = 60\<rparr>,
          \<lparr>timestamp = 43200, reading_value = 100\<rparr>,
          \<lparr>timestamp = 72000, reading_value = 200\<rparr>]"

text \<open>The four readings of the route's own test (08:00, 12:00, 16:00, 20:00).\<close>

definition db4 :: "reading list" where
  "db4 = [\<lparr>timestamp = 28800, reading_value = 60\<rparr>,
          \<lparr>timestamp = 43200, reading_value = 100\<rparr>,
          \<lparr>timestamp = 57600, reading_value = 120\<rparr>,
          \<lparr>timestamp = 72000, reading_value = 200\<rparr>]"

text \<open>
  Two readings of one day whose mean, 100.5, lies halfway between two integers.
\<close>

definition db_tie :: "reading list" where
  "db_tie = [\<lparr>timestamp = 28800, reading_value = 100\<rparr>,
             \<lparr>timestamp = 43200, reading_value = 101\<rparr>]"

text \<open>
  The four readings of the daily-summary test (08:00, 12:00, 18:00, 22:00).
\<close>

definition db_day :: "reading list" where
  "db_day = [\<lparr>timestamp = 28800, reading_value = 70\<rparr>,
             \<lparr>timestamp = 43200, reading_value = 100\<rparr>,
             \<lparr>timestamp = 64800, reading_value = 150\<rparr>,
             \<lparr>timestamp = 79200, reading_value = 80\<rparr>]"

text \<open>
  The readings of the profile's own test: 08:00 and 12:00 on two consecutive days.
\<close>

definition db_agp :: "reading list" where
  "db_agp = [\<lparr>timestamp = 28800, reading_value = 80\<rparr>,
             \<lparr>timestamp = 43200, reading_value = 100\<rparr>,
             \<lparr>timestamp = 115200, reading_value = 90\<rparr>,
             \<lparr>timestamp = 129600, reading_value = 110\<rparr>]"


text \<open>
  Three points that share the x-value 0.7 (the double nearest to it).
\<close>

definition pts_const :: "correlation_point list" where
  "pts_const = [\<lparr>pt_date = ''2024-01-01'', pt_x = b64 (7 / 10), pt_y = 7\<rparr>,
                \<lparr>pt_date = ''2024-01-02'', pt_x = b64 (7 / 10), pt_y = 8\<rparr>,
                \<lparr>pt_date = ''2024-01-03'', pt_x = b64 (7 / 10), pt_y = 9\<rparr>]"

text \<open>
  Three points on the line \<open>y = x - 99999999\<close>, with distinct x-values near \<open>10^8\<close>.
\<close>

definition pts_far :: "correlation_point list" where
  "pts_far = [\<lparr>pt_date = ''2024-01-01'', pt_x = 100000000, pt_y = 1\<rparr>,
              \<lparr>pt_date = ''2024-01-02'', pt_x = 100000001, pt_y = 2\<rparr>,
              \<lparr>pt_date = ''2024-01-03'', pt_x = 100000002, pt_y = 3\<rparr>]"

section \<open>Properties\<close>

subsection \<open>Rounding to an integer\<close>

lemma py_round_error: "\<bar>of_int (py_round x) - x\<bar> \<le> 1 / 2"
proof -
  have lo: "of_int \<lfloor>x\<rfloor> \<le> x" and hi: "x < of_int \<lfloor>x\<rfloor> + 1"
    by linarith+
  show ?thesis
    unfolding py_round_def Let_def using lo hi by (auto simp: abs_le_iff)
qed

lemma py_round_mono:
  assumes "x \<le> y"
  shows "py_round x \<le> py_round y"
proof (cases "\<lfloor>x\<rfloor> = \<lfloor>y\<rfloor>")
  case True
  with assms show ?thesis
    unfolding py_round_def Let_def by auto
next
  case False
  with assms have "\<lfloor>x\<rfloor> + 1 \<le> \<lfloor>y\<rfloor>"
    using floor_mono [of x y] by linarith
  moreover have "py_round x \<le> \<lfloor>x\<rfloor> + 1"
    unfolding py_round_def Let_def by auto
  moreover have "\<lfloor>y\<rfloor> \<le> py_round y"
    unfolding py_round_def Let_def by auto
  ultimately show ?thesis by linarith
qed

lemma py_round_of_int: "py_round (of_int n) = n"
  unfolding py_round_def Let_def by simp

lemma py_round_minus: "py_round (- x) = - py_round x"
proof (cases "x = of_int \<lfloor>x\<rfloor>")
  case True
  then have "py_round x = \<lfloor>x\<rfloor>" by (metis py_round_of_int)
  moreover from True have "- x = of_int (- \<lfloor>x\<rfloor>)" by simp
  then have "py_round (- x) = - \<lfloor>x\<rfloor>" by (metis py_round_of_int)
  ultimately show ?thesis by simp
next
  case False
  have le: "of_int \<lfloor>x\<rfloor> \<le> x" and "x < of_int \<lfloor>x\<rfloor> + 1" by linarith+
  from le False have "of_int \<lfloor>x\<rfloor> < x" by (metis less_le)
  have fl: "\<lfloor>- x\<rfloor> = - \<lfloor>x\<rfloor> - 1"
  proof (rule floor_unique)
    show "of_int (- \<lfloor>x\<rfloor> - 1) \<le> - x"
      using \<open>x < of_int \<lfloor>x\<rfloor> + 1\<close> by simp
    show "- x < of_int (- \<lfloor>x\<rfloor> - 1) + 1"
      using \<open>of_int \<lfloor>x\<rfloor> < x\<close> by simp
  qed
  have d: "- x - of_int \<lfloor>- x\<rfloor> = 1 - (x - of_int \<lfloor>x\<rfloor>)"
    unfolding fl by simp
  consider "x - of_int \<lfloor>x\<rfloor> < 1 / 2" | "1 / 2 < x - of_int \<lfloor>x\<rfloor>"
    | "x - of_int \<lfloor>x\<rfloor> = 1 / 2"
    by linarith
  then show ?thesis
  proof cases
    case 1
    then have "py_round x = \<lfloor>x\<rfloor>" unfolding py_round_def Let_def by simp
    moreover from 1 have "py_round (- x) = \<lfloor>- x\<rfloor> + 1"
      unfolding py_round_def Let_def d by simp
    ultimately show ?thesis unfolding fl by simp
  next
    case 2
    then have "py_round x = \<lfloor>x\<rfloor> + 1" unfolding py_round_def Let_def by simp
    moreover from 2 have "py_round (- x) = \<lfloor>- x\<rfloor>"
      unfolding py_round_def Let_def d by simp
    ultimately show ?thesis unfolding fl by simp
  next
    case 3
    then have a: "py_round x = (if even \<lfloor>x\<rfloor> then \<lfloor>x\<rfloor> else \<lfloor>x\<rfloor> + 1)"
      unfolding py_round_def Let_def by simp
    from 3 have "py_round (- x) = (if even \<lfloor>- x\<rfloor> then \<lfloor>- x\<rfloor> else \<lfloor>- x\<rfloor> + 1)"
      unfolding py_round_def Let_def d by simp
    then show ?thesis unfolding a fl by simp
  qed
qed

subsection \<open>Rounding to a double\<close>

lemma bitlen_powi_bounds:
  assumes "0 < p"
  shows "(2::rat) powi (bitlen p - 1) \<le> of_int p" and "of_int p < (2::rat) powi bitlen p"
proof -
  from assms have b: "1 \<le> bitlen p"
    using bitlen_eq_zero_iff [of p] bitlen_nonneg [of p] by linarith
  from bitlen_bounds [OF assms]
  have lo: "2 ^ nat (bitlen p - 1) \<le> p" and hi: "p < 2 ^ nat (bitlen p)" by simp_all
  have "(2::rat) powi (bitlen p - 1) = of_int (2 ^ nat (bitlen p - 1))"
    using b by (simp add: power_int_def)
  also have "\<dots> \<le> of_int p" using lo by (simp only: of_int_le_iff)
  finally show "(2::rat) powi (bitlen p - 1) \<le> of_int p" .
  have "(of_int p :: rat) < of_int (2 ^ nat (bitlen p))"
    using hi by (simp only: of_int_less_iff)
  also have "\<dots> = 2 powi bitlen p"
    using b by (simp add: power_int_def)
  finally show "of_int p < (2::rat) powi bitlen p" .
qed

lemma binade_bounds:
  assumes "x \<noteq> 0"
  shows "2 powi binade x \<le> \<bar>x\<bar>" and "\<bar>x\<bar> < 2 powi (binade x + 1)"
proof -
  obtain p q where pq: "quotient_of \<bar>x\<bar> = (p, q)" by (cases "quotient_of \<bar>x\<bar>")
  then have q: "0 < q" by (rule quotient_of_denom_pos)
  from pq have x: "\<bar>x\<bar> = of_int p / of_int q" by (rule quotient_of_div)
  from assms have "0 < \<bar>x\<bar>" by simp
  with x q have p: "0 < p" by (simp add: zero_less_divide_iff)
  let ?k = "bitlen p - bitlen q"
  have qr: "(0::rat) < of_int q" using q by simp
  have up: "\<bar>x\<bar> < 2 powi (?k + 1)"
  proof -
    have "of_int p < (2::rat) powi bitlen p" by (rule bitlen_powi_bounds [OF p])
    also have "\<dots> = 2 powi (?k + 1) * 2 powi (bitlen q - 1)"
      by (simp add: power_int_add [symmetric])
    also have "\<dots> \<le> 2 powi (?k + 1) * of_int q"
      by (rule mult_left_mono) (simp_all add: bitlen_powi_bounds [OF q])
    finally show ?thesis unfolding x using qr by (simp add: pos_divide_less_eq)
  qed
  have low: "2 powi (?k - 1) \<le> \<bar>x\<bar>"
  proof -
    have "2 powi (?k - 1) * of_int q \<le> 2 powi (?k - 1) * (2::rat) powi bitlen q"
      by (rule mult_left_mono) (use bitlen_powi_bounds(2) [OF q] in simp_all)
    also have "\<dots> = 2 powi (bitlen p - 1)"
      by (simp add: power_int_add [symmetric])
    also have "\<dots> \<le> of_int p" by (rule bitlen_powi_bounds [OF p])
    finally show ?thesis unfolding x using qr by (simp add: pos_le_divide_eq)
  qed
  have def: "binade x = (if 2 powi ?k \<le> \<bar>x\<bar> then ?k else ?k - 1)"
    unfolding binade_def pq by (simp add: Let_def)
  show "2 powi binade x \<le> \<bar>x\<bar>"
    unfolding def using low by simp
  show "\<bar>x\<bar> < 2 powi (binade x + 1)"
    unfolding def using up by (simp add: not_le)
qed

lemma binade_minus: "binade (- x) = binade x"
  unfolding binade_def by simp

lemma b64_minus: "b64 (- x) = - b64 x"
  unfolding b64_def binade_minus by (simp add: Let_def py_round_minus)

lemma b64_zero [simp]: "b64 0 = 0"
  unfolding b64_def by simp

lemma b64_error_ulp:
  assumes "x \<noteq> 0"
  shows "\<bar>b64 x - x\<bar> \<le> 2 powi (binade x - 53)"
proof -
  let ?u = "(2::rat) powi (binade x - 52)"
  have u: "0 < ?u" by simp
  have "b64 x - x = (of_int (py_round (x / ?u)) - x / ?u) * ?u"
    using assms unfolding b64_def Let_def by (simp add: algebra_simps)
  then have "\<bar>b64 x - x\<bar> = \<bar>of_int (py_round (x / ?u)) - x / ?u\<bar> * ?u"
    using u by (simp add: abs_mult)
  also have "\<dots> \<le> 1 / 2 * ?u"
    by (rule mult_right_mono) (use py_round_error u in simp_all)
  also have "\<dots> = 2 powi (binade x - 53)"
    by (simp add: power_int_diff)
  finally show ?thesis .
qed

lemma b64_error: "\<bar>b64 x - x\<bar> \<le> \<bar>x\<bar> / 2 ^ 53"
proof (cases "x = 0")
  case True
  then show ?thesis by simp
next
  case False
  have "\<bar>b64 x - x\<bar> \<le> 2 powi (binade x - 53)"
    by (rule b64_error_ulp [OF False])
  also have "\<dots> = 2 powi binade x / 2 ^ 53"
    by (simp add: power_int_diff)
  also have "\<dots> \<le> \<bar>x\<bar> / 2 ^ 53"
    by (rule divide_right_mono) (use binade_bounds(1) [OF False] in simp_all)
  finally show ?thesis .
qed

lemma b64_pos_range:
  assumes "0 < x"
  shows "2 powi binade x \<le> b64 x" and "b64 x \<le> 2 powi (binade x + 1)"
proof -
  let ?e = "binade x"
  let ?u = "(2::rat) powi (?e - 52)"
  have u: "0 < ?u" by simp
  from assms have nz: "x \<noteq> 0" and ax: "\<bar>x\<bar> = x" by simp_all
  have b: "b64 x = of_int (py_round (x / ?u)) * ?u"
    using nz unfolding b64_def Let_def by simp
  have lo: "2 powi ?e \<le> x" and hi: "x < 2 powi (?e + 1)"
    using binade_bounds [OF nz] unfolding ax by simp_all
  have e1: "2 powi ?e = of_int (2 ^ 52) * ?u"
    by (simp add: power_int_diff)
  have e2: "2 powi (?e + 1) = of_int (2 ^ 53) * ?u"
    by (simp add: power_int_diff power_int_add)
  have "of_int (2 ^ 52) \<le> x / ?u"
    using lo u unfolding e1 by (simp add: pos_le_divide_eq)
  then have "py_round (of_int (2 ^ 52)) \<le> py_round (x / ?u)"
    by (rule py_round_mono)
  then have "(of_int (2 ^ 52) :: rat) \<le> of_int (py_round (x / ?u))"
    unfolding py_round_of_int by (simp only: of_int_le_iff)
  then show "2 powi ?e \<le> b64 x"
    unfolding b e1 using u by (simp only: mult_le_cancel_right_pos)
  have "x / ?u \<le> of_int (2 ^ 53)"
    using hi u unfolding e2 by (simp add: pos_divide_le_eq)
  then have "py_round (x / ?u) \<le> py_round (of_int (2 ^ 53))"
    by (rule py_round_mono)
  then have "(of_int (py_round (x / ?u)) :: rat) \<le> of_int (2 ^ 53)"
    unfolding py_round_of_int by (simp only: of_int_le_iff)
  then show "b64 x \<le> 2 powi (?e + 1)"
    unfolding b e2 using u by (simp only: mult_le_cancel_right_pos)
qed

lemma b64_pos: "0 < x \<Longrightarrow> 0 < b64 x"
  using b64_pos_range(1) [of x] zero_less_power_int [of "2::rat" "binade x"]
  by linarith

lemma b64_mono_pos:
  assumes "0 < x" and "x \<le> y"
  shows "b64 x \<le> b64 y"
proof -
  from assms have y: "0 < y" by simp
  from assms have nx: "x \<noteq> 0" and ny: "y \<noteq> 0" by simp_all
  have ax: "\<bar>x\<bar> = x" and ay: "\<bar>y\<bar> = y" using assms by simp_all
  have le: "binade x \<le> binade y"
  proof (rule ccontr)
    assume "\<not> binade x \<le> binade y"
    then have "binade y + 1 \<le> binade x" by simp
    then have "(2::rat) powi (binade y + 1) \<le> 2 powi binade x"
      by (intro power_int_increasing) simp_all
    with binade_bounds(1) [OF nx] binade_bounds(2) [OF ny] assms(2)
    show False unfolding ax ay by linarith
  qed
  show ?thesis
  proof (cases "binade x = binade y")
    case True
    let ?u = "(2::rat) powi (binade y - 52)"
    have u: "0 < ?u" by simp
    have "x / ?u \<le> y / ?u"
      using assms(2) u by (simp add: divide_right_mono)
    then have "py_round (x / ?u) \<le> py_round (y / ?u)"
      by (rule py_round_mono)
    then have "(of_int (py_round (x / ?u)) :: rat) * ?u \<le> of_int (py_round (y / ?u)) * ?u"
      using u by (simp only: mult_le_cancel_right_pos of_int_le_iff)
    then show ?thesis
      using nx ny unfolding b64_def Let_def True by simp
  next
    case False
    with le have "binade x + 1 \<le> binade y" by simp
    then have "(2::rat) powi (binade x + 1) \<le> 2 powi binade y"
      by (intro power_int_increasing) simp_all
    with b64_pos_range(2) [OF assms(1)] b64_pos_range(1) [OF y]
    show ?thesis by linarith
  qed
qed

lemma b64_mono:
  assumes "x \<le> y"
  shows "b64 x \<le> b64 y"
proof -
  consider "0 < x" | "x \<le> 0" "0 \<le> y" | "y < 0" using assms by linarith
  then show ?thesis
  proof cases
    case 1
    then show ?thesis using assms by (rule b64_mono_pos)
  next
    case 2
    have "b64 x \<le> 0"
    proof (cases "x = 0")
      case True then show ?thesis by simp
    next
      case False
      with 2 have "0 < - x" by simp
      then have "0 < b64 (- x)" by (rule b64_pos)
      then show ?thesis unfolding b64_minus by simp
    qed
    moreover have "0 \<le> b64 y"
    proof (cases "y = 0")
      case True then show ?thesis by simp
    next
      case False
      with 2 have "0 < y" by simp
      then show ?thesis using b64_pos [of y] by simp
    qed
    ultimately show ?thesis by linarith
  next
    case 3
    then have "0 < - y" and "- y \<le> - x" using assms by simp_all
    then have "b64 (- y) \<le> b64 (- x)" by (rule b64_mono_pos)
    then show ?thesis unfolding b64_minus by simp
  qed
qed

subsection \<open>Counting\<close>

lemma count_if_length: "count_if cond readings = int (length (filter cond readings))"
  unfolding count_if_def by (induction readings) auto

lemma count_if_mono:
  assumes "\<And>r. P r \<Longrightarrow> Q r"
  shows "count_if P readings \<le> count_if Q readings"
  unfolding count_if_length using assms by (induction readings) auto

lemma count_if_values:
  "count_if (\<lambda>r. P (reading_value r)) readings
     = int (length (filter P (map reading_value readings)))"
  unfolding count_if_length by (induction readings) auto

lemma count_if_inverted:
  assumes "hi < lo"
  shows "count_if (\<lambda>r. reading_value r < lo) readings
           + count_if (\<lambda>r. reading_value r > hi) readings
         = int (length readings)
           + count_if (\<lambda>r. hi < reading_value r \<and> reading_value r < lo) readings"
  unfolding count_if_length using assms by (induction readings) auto

subsection \<open>Time in range\<close>

lemma percent_of_Some:
  "n \<noteq> 0 \<Longrightarrow> percent_of c n = Some (percent_value c n)"
  unfolding percent_of_def py_truediv_def percent_value_def percent_tenths_def py_round_1_def
  by simp

lemma c_total_count_readings:
  "c_total (count_readings lo hi readings) = int (length readings)"
  unfolding count_readings_def Let_def by simp

lemma time_in_range_nonempty:
  assumes "query_readings start_dt end_dt db \<noteq> []"
  shows "get_glucose_time_in_range start_dt end_dt lo hi db =
         (let c = count_readings lo hi (query_readings start_dt end_dt db)
          in Some \<lparr>total_readings = c_total c,
                   in_range_percent = percent_value (c_in_range c) (c_total c),
                   low_percent = percent_value (c_low c) (c_total c),
                   high_percent = percent_value (c_high c) (c_total c),
                   very_low_percent = percent_value (c_very_low c) (c_total c),
                   very_high_percent = percent_value (c_very_high c) (c_total c)\<rparr>)"
proof -
  have "c_total (count_readings lo hi (query_readings start_dt end_dt db)) \<noteq> 0"
    using assms by (simp add: c_total_count_readings)
  then show ?thesis
    using assms unfolding get_glucose_time_in_range_def Let_def
    by (simp add: percent_of_Some)
qed

lemma time_in_range_total:
  "\<exists>b. get_glucose_time_in_range start_dt end_dt lo hi db = Some b"
proof (cases "query_readings start_dt end_dt db = []")
  case True
  then show ?thesis unfolding get_glucose_time_in_range_def Let_def by simp
next
  case False
  then show ?thesis by (simp add: time_in_range_nonempty Let_def)
qed

lemma count_readings_sum:
  "c_in_range (count_readings lo hi readings) + c_low (count_readings lo hi readings)
     + c_high (count_readings lo hi readings) = c_total (count_readings lo hi readings)"
  unfolding count_readings_def Let_def by simp

lemma count_readings_bounds:
  "0 \<le> c_low (count_readings lo hi readings)"
  "c_low (count_readings lo hi readings) \<le> c_total (count_readings lo hi readings)"
  "0 \<le> c_high (count_readings lo hi readings)"
  "c_high (count_readings lo hi readings) \<le> c_total (count_readings lo hi readings)"
  unfolding count_readings_def Let_def count_if_length by simp_all

lemma b64_small_integers:
  "b64 1 = 1" "b64 (- 1) = - 1" "b64 100 = 100" "b64 (- 100) = - 100"
  by code_simp+

lemma percent_value_mono:
  fixes a b n :: int
  assumes "a \<le> b" and "0 < n"
  shows "percent_value a n \<le> percent_value b n"
proof -
  have "(of_int a :: rat) / of_int n \<le> of_int b / of_int n"
    using assms by (simp add: divide_right_mono)
  then have "b64 (of_int a / of_int n) \<le> b64 (of_int b / of_int n)"
    by (rule b64_mono)
  then have "b64 (of_int a / of_int n) * 100 \<le> b64 (of_int b / of_int n) * 100"
    by simp
  then have "f_mul (b64 (of_int a / of_int n)) 100 \<le> f_mul (b64 (of_int b / of_int n)) 100"
    unfolding f_mul_def by (rule b64_mono)
  then have "f_mul (b64 (of_int a / of_int n)) 100 * 10
               \<le> f_mul (b64 (of_int b / of_int n)) 100 * 10"
    by simp
  then have "percent_tenths a n \<le> percent_tenths b n"
    unfolding percent_tenths_def by (rule py_round_mono)
  then have "(of_int (percent_tenths a n) :: rat) / 10 \<le> of_int (percent_tenths b n) / 10"
    by simp
  then show ?thesis
    unfolding percent_value_def by (rule b64_mono)
qed

lemma percent_value_zero: "percent_value 0 n = 0"
  unfolding percent_value_def percent_tenths_def f_mul_def
  using py_round_of_int [of 0] by simp

lemma percent_tenths_error:
  fixes c n :: int
  assumes "\<bar>c\<bar> \<le> n" and "0 < n"
  shows "\<bar>of_int (percent_tenths c n) - 1000 * (of_int c / of_int n :: rat)\<bar>
           \<le> 1 / 2 + 2000 / 2 ^ 53"
    and "\<bar>percent_tenths c n\<bar> \<le> 1000"
proof -
  let ?q = "of_int c / of_int n :: rat"
  let ?q' = "b64 ?q"
  let ?x = "f_mul ?q' 100"
  have "- of_int n \<le> (of_int c :: rat)" and "(of_int c :: rat) \<le> of_int n"
    unfolding of_int_minus [symmetric] of_int_le_iff using assms(1) by linarith+
  then have ql: "- 1 \<le> ?q" and qu: "?q \<le> 1"
    using assms(2) by (simp_all add: pos_le_divide_eq pos_divide_le_eq)
  then have q: "\<bar>?q\<bar> \<le> 1" unfolding abs_le_iff by linarith
  note ql qu
  then have "b64 (- 1) \<le> ?q'" and "?q' \<le> b64 1"
    by (simp_all only: b64_mono)
  then have q': "- 1 \<le> ?q'" "?q' \<le> 1"
    unfolding b64_small_integers by simp_all
  have eq: "\<bar>?q' - ?q\<bar> \<le> 1 / 2 ^ 53"
  proof -
    have "\<bar>?q' - ?q\<bar> \<le> \<bar>?q\<bar> / 2 ^ 53" by (rule b64_error)
    also have "\<dots> \<le> 1 / 2 ^ 53" using q by (simp add: divide_right_mono)
    finally show ?thesis .
  qed
  have y: "- 100 \<le> ?q' * 100" "?q' * 100 \<le> 100" using q' by simp_all
  then have "b64 (- 100) \<le> ?x" and "?x \<le> b64 100"
    unfolding f_mul_def by (simp_all only: b64_mono)
  then have x: "- 100 \<le> ?x" "?x \<le> 100"
    unfolding b64_small_integers by simp_all
  have ex: "\<bar>?x - ?q' * 100\<bar> \<le> 100 / 2 ^ 53"
  proof -
    have "\<bar>?x - ?q' * 100\<bar> \<le> \<bar>?q' * 100\<bar> / 2 ^ 53"
      unfolding f_mul_def by (rule b64_error)
    also have "\<dots> \<le> 100 / 2 ^ 53"
      using y by (intro divide_right_mono) (simp_all add: abs_le_iff)
    finally show ?thesis .
  qed
  have et: "\<bar>of_int (percent_tenths c n) - ?x * 10\<bar> \<le> 1 / 2"
    unfolding percent_tenths_def by (rule py_round_error)
  show "\<bar>of_int (percent_tenths c n) - 1000 * ?q\<bar> \<le> 1 / 2 + 2000 / 2 ^ 53"
    using eq ex et unfolding abs_le_iff by linarith
  have "py_round (of_int (- 1000)) \<le> percent_tenths c n"
    unfolding percent_tenths_def using x by (intro py_round_mono) simp
  moreover have "percent_tenths c n \<le> py_round (of_int 1000)"
    unfolding percent_tenths_def using x by (intro py_round_mono) simp
  ultimately show "\<bar>percent_tenths c n\<bar> \<le> 1000"
    unfolding py_round_of_int by simp
qed

lemma percent_value_error:
  fixes c n :: int
  assumes "\<bar>c\<bar> \<le> n" and "0 < n"
  shows "\<bar>percent_value c n - of_int (percent_tenths c n) / 10\<bar> \<le> 100 / 2 ^ 53"
proof -
  let ?t = "of_int (percent_tenths c n) / 10 :: rat"
  have "\<bar>of_int (percent_tenths c n) :: rat\<bar> \<le> of_int 1000"
    unfolding of_int_abs [symmetric] of_int_le_iff
    by (rule percent_tenths_error(2) [OF assms])
  then have t: "\<bar>?t\<bar> \<le> 100" by simp
  have "\<bar>percent_value c n - ?t\<bar> \<le> \<bar>?t\<bar> / 2 ^ 53"
    unfolding percent_value_def by (rule b64_error)
  also have "\<dots> \<le> 100 / 2 ^ 53"
    using t by (intro divide_right_mono) simp_all
  finally show ?thesis .
qed

lemma three_percentages:
  fixes a b c n :: int
  assumes "a + b + c = n" and "0 < n" and "\<bar>a\<bar> \<le> n" and "\<bar>b\<bar> \<le> n" and "\<bar>c\<bar> \<le> n"
  shows "\<bar>percent_tenths a n + percent_tenths b n + percent_tenths c n - 1000\<bar> \<le> 1"
    and "\<bar>percent_value a n + percent_value b n + percent_value c n - 100\<bar>
           \<le> 1 / 10 + 1 / 10 ^ 12"
proof -
  let ?s = "percent_tenths a n + percent_tenths b n + percent_tenths c n"
  have nz: "(of_int n :: rat) \<noteq> 0" using assms(2) by simp
  have "(of_int a :: rat) + of_int b + of_int c = of_int n"
    unfolding of_int_add [symmetric] by (simp only: assms(1))
  then have "(of_int a + of_int b + of_int c) / (of_int n :: rat) = 1"
    using nz by simp
  then have one: "(of_int a / of_int n :: rat) + of_int b / of_int n + of_int c / of_int n = 1"
    by (simp add: add_divide_distrib)
  note ea = percent_tenths_error(1) [OF assms(3) assms(2)]
  note eb = percent_tenths_error(1) [OF assms(4) assms(2)]
  note ec = percent_tenths_error(1) [OF assms(5) assms(2)]
  have small: "(6000 :: rat) / 2 ^ 53 < 1 / 2" by simp
  have "\<bar>(of_int ?s :: rat) - 1000\<bar> \<le> 3 / 2 + 6000 / 2 ^ 53"
    using ea eb ec one unfolding abs_le_iff of_int_add by linarith
  with small have "\<bar>(of_int (?s - 1000) :: rat)\<bar> < of_int 2"
    by simp
  then have "\<bar>?s - 1000\<bar> < 2"
    unfolding of_int_abs [symmetric] of_int_less_iff .
  then show tenths: "\<bar>?s - 1000\<bar> \<le> 1" by linarith
  then have "\<bar>(of_int (?s - 1000) :: rat)\<bar> \<le> of_int 1"
    unfolding of_int_abs [symmetric] of_int_le_iff .
  then have "\<bar>(of_int ?s :: rat) - 1000\<bar> \<le> 1"
    by simp
  then have "\<bar>((of_int ?s :: rat) - 1000) / 10\<bar> \<le> 1 / 10"
    unfolding abs_divide by simp
  then have st: "\<bar>(of_int (percent_tenths a n) :: rat) / 10 + of_int (percent_tenths b n) / 10
                    + of_int (percent_tenths c n) / 10 - 100\<bar> \<le> 1 / 10"
    by (simp add: diff_divide_distrib add_divide_distrib)
  note va = percent_value_error [OF assms(3) assms(2)]
  note vb = percent_value_error [OF assms(4) assms(2)]
  note vc = percent_value_error [OF assms(5) assms(2)]
  have tiny: "(300 :: rat) / 2 ^ 53 \<le> 1 / 10 ^ 12" by simp
  have "\<bar>percent_value a n + percent_value b n + percent_value c n - 100\<bar>
          \<le> 1 / 10 + 300 / 2 ^ 53"
    using va vb vc st unfolding abs_le_iff of_int_add by linarith
  with tiny show "\<bar>percent_value a n + percent_value b n + percent_value c n - 100\<bar>
           \<le> 1 / 10 + 1 / 10 ^ 12"
    by linarith
qed

text \<open>
  Claim C1 as stated fails when the window holds no reading: the early return gives every
  percentage as 0, so the three percentages sum to 0, not to 100.
\<close>

theorem time_in_range_empty_sum_counterexample:
  "get_glucose_time_in_range 0 86400 70 180 [] =
     Some \<lparr>total_readings = 0, in_range_percent = 0, low_percent = 0,
           high_percent = 0, very_low_percent = 0, very_high_percent = 0\<rparr>
   \<and> \<not> \<bar>in_range_percent (the (get_glucose_time_in_range 0 86400 70 180 []))
          + low_percent (the (get_glucose_time_in_range 0 86400 70 180 []))
          + high_percent (the (get_glucose_time_in_range 0 86400 70 180 [])) - 100\<bar> \<le> 1 / 10"
  by (simp add: get_glucose_time_in_range_def query_readings_def)

text \<open>
  Claim C1 (amended): for every window that holds at least one reading, and any
  thresholds, the route returns a breakdown in which each of \<open>in_range_percent\<close>,
  \<open>low_percent\<close> and \<open>high_percent\<close> is the double nearest a whole number of tenths; the
  three numbers of tenths sum to 999, 1000 or 1001, and the sum of the three doubles
  differs from 100 by at most 0.1 plus the representation error of the doubles, which
  is below \<open>10^-12\<close>. (The witness shows that the bare bound 0.1 is exceeded: three
  times the double 33.3 is more than 0.1 below 100.)
\<close>

theorem time_in_range_sum_nonempty:
  assumes "query_readings start_dt end_dt db \<noteq> []"
  shows "\<exists>b. get_glucose_time_in_range start_dt end_dt lo hi db = Some b
           \<and> \<bar>in_range_percent b + low_percent b + high_percent b - 100\<bar>
                \<le> 1 / 10 + 1 / 10 ^ 12
           \<and> (\<exists>t1 t2 t3. in_range_percent b = b64 (of_int t1 / 10)
                  \<and> low_percent b = b64 (of_int t2 / 10)
                  \<and> high_percent b = b64 (of_int t3 / 10)
                  \<and> \<bar>t1 + t2 + t3 - 1000\<bar> \<le> 1)"
proof -
  let ?c = "count_readings lo hi (query_readings start_dt end_dt db)"
  let ?n = "c_total ?c"
  have n: "0 < ?n"
    using assms by (simp add: c_total_count_readings)
  note bd = count_readings_bounds [of lo hi "query_readings start_dt end_dt db"]
  note sm = count_readings_sum [of lo hi "query_readings start_dt end_dt db"]
  have l: "\<bar>c_low ?c\<bar> \<le> ?n" and h: "\<bar>c_high ?c\<bar> \<le> ?n"
    using bd by simp_all
  have i: "\<bar>c_in_range ?c\<bar> \<le> ?n"
    using bd sm by linarith
  note three = three_percentages [OF sm n i l h]
  have "\<exists>t1 t2 t3. percent_value (c_in_range ?c) ?n = b64 (of_int t1 / 10)
          \<and> percent_value (c_low ?c) ?n = b64 (of_int t2 / 10)
          \<and> percent_value (c_high ?c) ?n = b64 (of_int t3 / 10)
          \<and> \<bar>t1 + t2 + t3 - 1000\<bar> \<le> 1"
    using three(1) unfolding percent_value_def by blast
  with three(2) show ?thesis
    by (simp add: time_in_range_nonempty [OF assms] Let_def)
qed

theorem time_in_range_sum_nonempty_witness:
  "query_readings 0 86400 db3 \<noteq> []
   \<and> (\<exists>b. get_glucose_time_in_range 0 86400 70 180 db3 = Some b
          \<and> in_range_percent b = b64 (333 / 10)
          \<and> low_percent b = b64 (333 / 10)
          \<and> high_percent b = b64 (333 / 10)
          \<and> 1 / 10 < \<bar>in_range_percent b + low_percent b + high_percent b - 100\<bar>
          \<and> \<bar>in_range_percent b + low_percent b + high_percent b - 100\<bar>
                \<le> 1 / 10 + 1 / 10 ^ 12)"
proof -
  have ne: "query_readings 0 86400 db3 \<noteq> []"
    by (simp add: query_readings_def db3_def)
  from time_in_range_sum_nonempty [OF ne, of 70 180] obtain b where
    b: "get_glucose_time_in_range 0 86400 70 180 db3 = Some b"
      "\<bar>in_range_percent b + low_percent b + high_percent b - 100\<bar> \<le> 1 / 10 + 1 / 10 ^ 12"
    by blast
  have v: "get_glucose_time_in_range 0 86400 70 180 db3 =
      Some \<lparr>total_readings = 3, in_range_percent = b64 (333 / 10),
        low_percent = b64 (333 / 10), high_percent = b64 (333 / 10),
        very_low_percent = 0, very_high_percent = 0\<rparr>"
    by code_simp
  have below: "1 / 10 < \<bar>b64 (333 / 10) + b64 (333 / 10) + b64 (333 / 10) - 100\<bar>"
    by code_simp
  from b(1) v have "in_range_percent b = b64 (333 / 10)" "low_percent b = b64 (333 / 10)"
    "high_percent b = b64 (333 / 10)"
    by auto
  with b below ne show ?thesis by auto
qed

lemma percent_value_samples:
  "percent_value 2 4 = 50" "percent_value 1 4 = 25" "percent_value (- 2) 4 = - 50"
  by code_simp+

text \<open>
  Claim C4: when the window holds readings with the values 60, 100, 120, 200 and the
  thresholds are the defaults 70 and 180, the route returns in-range 50.0, low 25.0,
  high 25.0, very low 0.0 and very high 0.0.
\<close>

theorem time_in_range_scenario_a:
  assumes "map reading_value (query_readings start_dt end_dt db) = [60, 100, 120, 200]"
  shows "get_glucose_time_in_range start_dt end_dt 70 180 db =
           Some \<lparr>total_readings = 4, in_range_percent = 50, low_percent = 25,
                 high_percent = 25, very_low_percent = 0, very_high_percent = 0\<rparr>"
proof -
  let ?rs = "query_readings start_dt end_dt db"
  have ne: "?rs \<noteq> []" using assms by auto
  have len: "length ?rs = 4"
    using arg_cong [OF assms, of length] by simp
  have c: "count_readings 70 180 ?rs =
             \<lparr>c_total = 4, c_low = 1, c_high = 1, c_very_low = 0, c_very_high = 0,
              c_in_range = 2\<rparr>"
    unfolding count_readings_def Let_def
      count_if_values [of "\<lambda>v. v < 70"] count_if_values [of "\<lambda>v. v > 180"]
      count_if_values [of "\<lambda>v. v < 54"] count_if_values [of "\<lambda>v. v > 250"]
      assms len
    by simp
  show ?thesis
    unfolding time_in_range_nonempty [OF ne] c Let_def
    by (simp add: percent_value_samples percent_value_zero)
qed

theorem time_in_range_scenario_a_witness:
  "map reading_value (query_readings 0 86400 db4) = [60, 100, 120, 200]
   \<and> get_glucose_time_in_range 0 86400 70 180 db4 =
           Some \<lparr>total_readings = 4, in_range_percent = 50, low_percent = 25,
                 high_percent = 25, very_low_percent = 0, very_high_percent = 0\<rparr>"
proof -
  have h: "map reading_value (query_readings 0 86400 db4) = [60, 100, 120, 200]"
    by (simp add: query_readings_def db4_def)
  from h time_in_range_scenario_a [OF h] show ?thesis by simp
qed

text \<open>
  Claim C5 as stated fails for a low threshold under 54: with the threshold 40 a reading
  of 50 is very low but not low, so \<open>very_low_percent = 100 > low_percent = 0\<close>.
\<close>

theorem very_percent_low_threshold_counterexample:
  "get_glucose_time_in_range 0 86400 40 180 [\<lparr>timestamp = 28800, reading_value = 50\<rparr>] =
     Some \<lparr>total_readings = 1, in_range_percent = 100, low_percent = 0,
           high_percent = 0, very_low_percent = 100, very_high_percent = 0\<rparr>
   \<and> \<not> very_low_percent
          (the (get_glucose_time_in_range 0 86400 40 180
                  [\<lparr>timestamp = 28800, reading_value = 50\<rparr>]))
        \<le> low_percent
          (the (get_glucose_time_in_range 0 86400 40 180
                  [\<lparr>timestamp = 28800, reading_value = 50\<rparr>]))"
proof -
  have "get_glucose_time_in_range 0 86400 40 180 [\<lparr>timestamp = 28800, reading_value = 50\<rparr>] =
     Some \<lparr>total_readings = 1, in_range_percent = 100, low_percent = 0,
           high_percent = 0, very_low_percent = 100, very_high_percent = 0\<rparr>"
    by code_simp
  then show ?thesis by simp
qed

text \<open>
  Claim C5 (amended): the route always returns a breakdown; when the low threshold is at
  least 54, \<open>very_low_percent \<le> low_percent\<close>, and when the high threshold is at most
  250, \<open>very_high_percent \<le> high_percent\<close>.
\<close>

theorem very_percent_nested:
  "\<exists>b. get_glucose_time_in_range start_dt end_dt low_threshold high_threshold db = Some b
       \<and> (54 \<le> low_threshold \<longrightarrow> very_low_percent b \<le> low_percent b)
       \<and> (high_threshold \<le> 250 \<longrightarrow> very_high_percent b \<le> high_percent b)"
proof (cases "query_readings start_dt end_dt db = []")
  case True
  then show ?thesis unfolding get_glucose_time_in_range_def Let_def by simp
next
  case False
  let ?rs = "query_readings start_dt end_dt db"
  let ?c = "count_readings low_threshold high_threshold ?rs"
  have n: "0 < c_total ?c"
    using False by (simp add: c_total_count_readings)
  have lo: "c_very_low ?c \<le> c_low ?c" if "54 \<le> low_threshold"
    unfolding count_readings_def Let_def using that
    by (auto intro!: count_if_mono)
  have hi: "c_very_high ?c \<le> c_high ?c" if "high_threshold \<le> 250"
    unfolding count_readings_def Let_def using that
    by (auto intro!: count_if_mono)
  show ?thesis
    unfolding time_in_range_nonempty [OF False] Let_def
    using percent_value_mono [OF lo n] percent_value_mono [OF hi n] by simp
qed

theorem very_percent_nested_witness:
  "\<exists>b. get_glucose_time_in_range 0 86400 70 180
         [\<lparr>timestamp = 28800, reading_value = 50\<rparr>, \<lparr>timestamp = 30000, reading_value = 65\<rparr>,
          \<lparr>timestamp = 40000, reading_value = 260\<rparr>] = Some b
       \<and> (54::int) \<le> 70 \<and> very_low_percent b \<le> low_percent b
       \<and> (180::int) \<le> 250 \<and> very_high_percent b \<le> high_percent b"
  using very_percent_nested [of 0 86400 70 180
         "[\<lparr>timestamp = 28800, reading_value = 50\<rparr>, \<lparr>timestamp = 30000, reading_value = 65\<rparr>,
          \<lparr>timestamp = 40000, reading_value = 260\<rparr>]"]
  by auto

text \<open>
  Claim C8: the route never raises (the division is guarded by the early return), and on
  a window without readings it returns \<open>total_readings = 0\<close> with every percentage 0.
\<close>

theorem time_in_range_no_readings:
  "get_glucose_time_in_range start_dt end_dt low_threshold high_threshold db \<noteq> None
   \<and> (query_readings start_dt end_dt db = [] \<longrightarrow>
        get_glucose_time_in_range start_dt end_dt low_threshold high_threshold db =
          Some \<lparr>total_readings = 0, in_range_percent = 0, low_percent = 0,
                high_percent = 0, very_low_percent = 0, very_high_percent = 0\<rparr>)"
proof -
  have "query_readings start_dt end_dt db = [] \<Longrightarrow>
        get_glucose_time_in_range start_dt end_dt low_threshold high_threshold db =
          Some \<lparr>total_readings = 0, in_range_percent = 0, low_percent = 0,
                high_percent = 0, very_low_percent = 0, very_high_percent = 0\<rparr>"
    unfolding get_glucose_time_in_range_def Let_def by simp
  then show ?thesis
    using time_in_range_total [of start_dt end_dt low_threshold high_threshold db] by auto
qed

theorem time_in_range_no_readings_witness:
  "query_readings 0 86400 [\<lparr>timestamp = 90000, reading_value = 100\<rparr>] = []
   \<and> get_glucose_time_in_range 0 86400 70 180 [\<lparr>timestamp = 90000, reading_value = 100\<rparr>] =
          Some \<lparr>total_readings = 0, in_range_percent = 0, low_percent = 0,
                high_percent = 0, very_low_percent = 0, very_high_percent = 0\<rparr>"
proof -
  have h: "query_readings 0 86400 [\<lparr>timestamp = 90000, reading_value = 100\<rparr>] = []"
    by (simp add: query_readings_def)
  with time_in_range_no_readings
         [of 0 86400 70 180 "[\<lparr>timestamp = 90000, reading_value = 100\<rparr>]"]
  show ?thesis by simp
qed

text \<open>
  Claim C10: for a non-empty window and any thresholds (none is rejected), the in-range
  count is \<open>total - low - high\<close>, so the three counts sum to the total. With the
  thresholds inverted, every reading strictly between them is counted as low and as high:
  the in-range count is minus the number of such readings, negative as soon as one
  exists, and the in-range percentage is then at most 0 (the witness shows -50).
\<close>

theorem in_range_count_by_subtraction:
  assumes "query_readings start_dt end_dt db \<noteq> []"
  shows "\<exists>b. get_glucose_time_in_range start_dt end_dt low_threshold high_threshold db = Some b
           \<and> (let readings = query_readings start_dt end_dt db;
                  c = count_readings low_threshold high_threshold readings
              in c_in_range c = c_total c - c_low c - c_high c
                 \<and> c_in_range c + c_low c + c_high c = c_total c
                 \<and> c_total c = total_readings b
                 \<and> percent_of (c_in_range c) (c_total c) = Some (in_range_percent b)
                 \<and> (high_threshold < low_threshold \<longrightarrow>
                      c_in_range c
                        = - count_if (strictly_between high_threshold low_threshold) readings
                      \<and> in_range_percent b \<le> 0)
                 \<and> (high_threshold < low_threshold
                      \<and> list_ex (strictly_between high_threshold low_threshold) readings \<longrightarrow>
                      c_in_range c < 0))"
proof -
  let ?rs = "query_readings start_dt end_dt db"
  let ?c = "count_readings low_threshold high_threshold ?rs"
  let ?btw = "strictly_between high_threshold low_threshold"
  let ?pct = "\<lambda>k. percent_value k (c_total ?c)"
  define b where "b = \<lparr>total_readings = c_total ?c, in_range_percent = ?pct (c_in_range ?c),
     low_percent = ?pct (c_low ?c), high_percent = ?pct (c_high ?c),
     very_low_percent = ?pct (c_very_low ?c), very_high_percent = ?pct (c_very_high ?c)\<rparr>"
  have ret: "get_glucose_time_in_range start_dt end_dt low_threshold high_threshold db = Some b"
    unfolding b_def time_in_range_nonempty [OF assms] Let_def ..
  have n: "0 < c_total ?c"
    using assms by (simp add: c_total_count_readings)
  have sub: "c_in_range ?c = c_total ?c - c_low ?c - c_high ?c"
    unfolding count_readings_def Let_def by simp
  have tot: "c_total ?c = total_readings b"
    unfolding b_def by simp
  have irp: "in_range_percent b = ?pct (c_in_range ?c)"
    unfolding b_def by simp
  have pof: "percent_of (c_in_range ?c) (c_total ?c) = Some (in_range_percent b)"
    unfolding irp using n by (simp add: percent_of_Some)
  have inv: "c_in_range ?c = - count_if ?btw ?rs" if "high_threshold < low_threshold"
  proof -
    have "?btw = (\<lambda>r. high_threshold < reading_value r \<and> reading_value r < low_threshold)"
      by (simp add: strictly_between_def fun_eq_iff)
    then show ?thesis
      using count_if_inverted [OF that, of ?rs]
      unfolding count_readings_def Let_def by simp
  qed
  have pct: "in_range_percent b \<le> 0" if "high_threshold < low_threshold"
  proof -
    have "c_in_range ?c \<le> 0"
      using inv [OF that] by (simp add: count_if_length)
    then have "?pct (c_in_range ?c) \<le> ?pct 0"
      using n by (rule percent_value_mono)
    then show ?thesis
      unfolding irp by (simp add: percent_value_zero)
  qed
  have neg: "c_in_range ?c < 0"
    if "high_threshold < low_threshold \<and> list_ex ?btw ?rs"
  proof -
    from that have "filter ?btw ?rs \<noteq> []"
      by (simp add: list_ex_iff filter_empty_conv)
    then have "0 < count_if ?btw ?rs"
      by (simp add: count_if_length)
    with inv that show ?thesis by simp
  qed
  have "c_in_range ?c = c_total ?c - c_low ?c - c_high ?c
          \<and> c_in_range ?c + c_low ?c + c_high ?c = c_total ?c
          \<and> c_total ?c = total_readings b
          \<and> percent_of (c_in_range ?c) (c_total ?c) = Some (in_range_percent b)
          \<and> (high_threshold < low_threshold \<longrightarrow>
                c_in_range ?c = - count_if ?btw ?rs \<and> in_range_percent b \<le> 0)
          \<and> (high_threshold < low_threshold \<and> list_ex ?btw ?rs \<longrightarrow> c_in_range ?c < 0)"
    using sub count_readings_sum [of low_threshold high_threshold ?rs] tot pof inv pct neg
    by blast
  with ret show ?thesis
    unfolding Let_def by blast
qed

theorem in_range_count_by_subtraction_witness:
  "query_readings 0 86400 db4 \<noteq> []
   \<and> (70::int) < 180
   \<and> list_ex (strictly_between 70 180) (query_readings 0 86400 db4)
   \<and> c_in_range (count_readings 180 70 (query_readings 0 86400 db4)) = - 2
   \<and> c_low (count_readings 180 70 (query_readings 0 86400 db4)) = 3
   \<and> c_high (count_readings 180 70 (query_readings 0 86400 db4)) = 3
   \<and> (\<exists>b. get_glucose_time_in_range 0 86400 180 70 db4 = Some b
          \<and> total_readings b = 4 \<and> in_range_percent b = - 50)"
proof -
  have q: "query_readings 0 86400 db4 = db4"
    by (simp add: query_readings_def db4_def)
  have ne: "query_readings 0 86400 db4 \<noteq> []"
    unfolding q by (simp add: db4_def)
  have ex: "list_ex (strictly_between 70 180) (query_readings 0 86400 db4)"
    unfolding q by (simp add: db4_def strictly_between_def)
  have c: "count_if (strictly_between 70 180) (query_readings 0 86400 db4) = 2"
    unfolding q by (simp add: db4_def strictly_between_def count_if_def)
  have lh: "c_low (count_readings 180 70 (query_readings 0 86400 db4)) = 3
            \<and> c_high (count_readings 180 70 (query_readings 0 86400 db4)) = 3
            \<and> c_total (count_readings 180 70 (query_readings 0 86400 db4)) = 4"
    unfolding q by (simp add: db4_def count_readings_def count_if_def)
  have r: "percent_of (- 2) 4 = Some (- 50)"
    by (simp add: percent_of_Some percent_value_samples)
  from in_range_count_by_subtraction [OF ne, of 180 70] ex c lh r
  show ?thesis
    unfolding Let_def by (auto simp: ne)
qed

subsection \<open>Daily summaries\<close>

lemma py_round_tie_even:
  assumes "\<bar>of_int (py_round x) - x\<bar> = 1 / 2"
  shows "even (py_round x)"
proof -
  have lo: "of_int \<lfloor>x\<rfloor> \<le> x" and hi: "x < of_int \<lfloor>x\<rfloor> + 1"
    by linarith+
  consider "x - of_int \<lfloor>x\<rfloor> < 1 / 2" | "1 / 2 < x - of_int \<lfloor>x\<rfloor>"
    | "x - of_int \<lfloor>x\<rfloor> = 1 / 2"
    by linarith
  then show ?thesis
  proof cases
    case 1
    then have "py_round x = \<lfloor>x\<rfloor>"
      unfolding py_round_def Let_def by simp
    with assms 1 lo show ?thesis by simp
  next
    case 2
    then have "py_round x = \<lfloor>x\<rfloor> + 1"
      unfolding py_round_def Let_def by simp
    with assms 2 hi show ?thesis by simp
  next
    case 3
    then show ?thesis unfolding py_round_def Let_def by simp
  qed
qed

lemma floor_rat_numeral_div [simp]:
  "\<lfloor>(numeral a :: rat) / numeral b\<rfloor> = numeral a div numeral b"
  using floor_divide_of_int_eq [of "numeral a" "numeral b", where ?'a = rat] by simp

lemma map_filter_all_Some:
  assumes "\<And>x. x \<in> set xs \<Longrightarrow> f x = Some (g x)"
  shows "List.map_filter f xs = map g xs"
  using assms by (induction xs) (simp_all add: map_filter_simps)

lemma filter_eq_distinct:
  assumes "distinct xs" and "d \<in> set xs"
  shows "filter (\<lambda>x. x = d) xs = [d]"
  using assms by (induction xs) (auto simp: filter_empty_conv)

lemma aggregate_group_nonempty:
  "vs \<noteq> [] \<Longrightarrow> aggregate_group d vs = Some (group_row d vs)"
  unfolding aggregate_group_def group_row_def by (cases vs) simp_all

lemma daily_query_rows:
  "daily_query readings =
     map (\<lambda>d. group_row d (values_on_date d readings))
       (sort (remdups (map (\<lambda>r. date_of (timestamp r)) readings)))"
proof -
  have "aggregate_group d (values_on_date d readings)
          = Some (group_row d (values_on_date d readings))"
    if "d \<in> set (sort (remdups (map (\<lambda>r. date_of (timestamp r)) readings)))" for d
  proof (rule aggregate_group_nonempty)
    from that obtain r where "r \<in> set readings" "date_of (timestamp r) = d"
      by auto
    then show "values_on_date d readings \<noteq> []"
      unfolding values_on_date_def by (auto simp: filter_empty_conv)
  qed
  then show ?thesis
    unfolding daily_query_def values_on_date_def [symmetric]
    by (rule map_filter_all_Some)
qed

lemma daily_entry_of_date:
  assumes "values_on_date d (query_readings start_dt end_dt db) \<noteq> []"
  shows "filter (\<lambda>x. date x = d) (get_glucose_daily start_dt end_dt db) =
           [\<lparr>date = d,
             avg = py_round (row_avg (group_row d (values_on_date d (query_readings start_dt end_dt db)))),
             min_value = row_min (group_row d (values_on_date d (query_readings start_dt end_dt db))),
             max_value = row_max (group_row d (values_on_date d (query_readings start_dt end_dt db))),
             count = row_count (group_row d (values_on_date d (query_readings start_dt end_dt db)))\<rparr>]"
proof -
  let ?rs = "query_readings start_dt end_dt db"
  let ?dates = "sort (remdups (map (\<lambda>r. date_of (timestamp r)) ?rs))"
  from assms obtain r where "r \<in> set ?rs" "date_of (timestamp r) = d"
    unfolding values_on_date_def by (auto simp: filter_empty_conv)
  then have mem: "d \<in> set ?dates" by auto
  have dist: "distinct ?dates" by simp
  have "filter (\<lambda>x. date x = d) (get_glucose_daily start_dt end_dt db)
          = map (\<lambda>d'. \<lparr>date = d', avg = py_round (row_avg (group_row d' (values_on_date d' ?rs))),
                        min_value = row_min (group_row d' (values_on_date d' ?rs)),
                        max_value = row_max (group_row d' (values_on_date d' ?rs)),
                        count = row_count (group_row d' (values_on_date d' ?rs))\<rparr>)
              (filter (\<lambda>x. x = d) ?dates)"
    unfolding get_glucose_daily_def Let_def daily_query_rows
    by (simp add: filter_map comp_def group_row_def)
  also note filter_eq_distinct [OF dist mem]
  finally show ?thesis by simp
qed

text \<open>
  Claim C2 as stated fails on a tie: for the values 100 and 101 the mean is 100.5, which
  the route reports as 100 (Python's \<^verbatim>\<open>round\<close> takes the even neighbour), while
  round-half-up gives 101.
\<close>

theorem daily_avg_half_up_counterexample:
  "map avg (get_glucose_daily 0 86400 db_tie) = [100]
   \<and> map reading_value (query_readings 0 86400 db_tie) = [100, 101]
   \<and> round_half_up (of_int (sum_list [100, 101]) / of_int (int (length [100, 101 :: int]))) = 101"
  by (simp add: get_glucose_daily_def daily_query_def query_readings_def db_tie_def date_of_def
      aggregate_group_def map_filter_simps py_round_def round_half_up_def Let_def)

text \<open>
  Claim C2 (amended): for every calendar date with at least one reading in the window,
  the output has exactly one entry of that date; its \<open>avg\<close> is an integer nearest to the
  arithmetic mean of that date's values, and when the mean lies exactly halfway between
  two integers it is the even one.
\<close>

theorem daily_avg_rounds_half_even:
  assumes "vs = values_on_date d (query_readings start_dt end_dt db)" and "vs \<noteq> []"
  shows "\<exists>row. filter (\<lambda>x. date x = d) (get_glucose_daily start_dt end_dt db) = [row]
           \<and> count row = int (length vs)
           \<and> \<bar>of_int (avg row) - (of_int (sum_list vs) / of_int (int (length vs)) :: rat)\<bar>
                \<le> 1 / 2
           \<and> (\<bar>of_int (avg row) - (of_int (sum_list vs) / of_int (int (length vs)) :: rat)\<bar>
                = 1 / 2 \<longrightarrow> even (avg row))"
proof -
  let ?mean = "of_int (sum_list vs) / of_int (int (length vs)) :: rat"
  have ne: "values_on_date d (query_readings start_dt end_dt db) \<noteq> []"
    using assms by simp
  have "\<bar>of_int (py_round ?mean) - ?mean\<bar> \<le> 1 / 2"
    by (rule py_round_error)
  moreover have "\<bar>of_int (py_round ?mean) - ?mean\<bar> = 1 / 2 \<longrightarrow> even (py_round ?mean)"
    using py_round_tie_even by blast
  ultimately show ?thesis
    unfolding daily_entry_of_date [OF ne] assms(1) [symmetric]
    by (simp add: group_row_def)
qed

theorem daily_avg_rounds_half_even_witness:
  "[70, 100, 150, 80] = values_on_date 0 (query_readings 0 86400 db_day)
   \<and> [100, 101] = values_on_date 0 (query_readings 0 86400 db_tie)
   \<and> (\<exists>row. filter (\<lambda>x. date x = 0) (get_glucose_daily 0 86400 db_day) = [row]
          \<and> count row = 4 \<and> avg row = 100)
   \<and> (\<exists>row. filter (\<lambda>x. date x = 0) (get_glucose_daily 0 86400 db_tie) = [row]
          \<and> count row = 2 \<and> \<bar>of_int (avg row) - (201 / 2 :: rat)\<bar> = 1 / 2 \<and> even (avg row))"
proof -
  have a: "[70, 100, 150, 80] = values_on_date 0 (query_readings 0 86400 db_day)"
    by (simp add: values_on_date_def query_readings_def db_day_def date_of_def)
  have b: "[100, 101] = values_on_date 0 (query_readings 0 86400 db_tie)"
    by (simp add: values_on_date_def query_readings_def db_tie_def date_of_def)
  from daily_avg_rounds_half_even [OF a] obtain row1 where
    r1: "filter (\<lambda>x. date x = 0) (get_glucose_daily 0 86400 db_day) = [row1]"
      "count row1 = 4" "\<bar>of_int (avg row1) - (100 :: rat)\<bar> \<le> 1 / 2"
    by auto
  from r1(3) have "\<bar>of_int (avg row1 - 100) :: rat\<bar> < of_int 1" by simp
  then have "\<bar>avg row1 - 100\<bar> < 1"
    unfolding of_int_abs [symmetric] of_int_less_iff .
  then have r1': "avg row1 = 100" by linarith
  from daily_avg_rounds_half_even [OF b] obtain row2 where
    r2: "filter (\<lambda>x. date x = 0) (get_glucose_daily 0 86400 db_tie) = [row2]"
      "count row2 = 2" "\<bar>of_int (avg row2) - (201 / 2 :: rat)\<bar> \<le> 1 / 2"
      "\<bar>of_int (avg row2) - (201 / 2 :: rat)\<bar> = 1 / 2 \<longrightarrow> even (avg row2)"
    by auto
  have "get_glucose_daily 0 86400 db_tie =
          [\<lparr>date = 0, avg = 100, min_value = 100, max_value = 101, count = 2\<rparr>]"
    by (simp add: get_glucose_daily_def daily_query_def query_readings_def
        db_tie_def date_of_def aggregate_group_def map_filter_simps py_round_def Let_def)
  with r2(1) have "avg row2 = 100" by auto
  then have tie: "\<bar>of_int (avg row2) - (201 / 2 :: rat)\<bar> = 1 / 2" by simp
  with r2(4) have "even (avg row2)" by blast
  with a b r1 r1' r2 tie show ?thesis by blast
qed

subsection \<open>Ambulatory glucose profile\<close>

lemma hour_of_less_24: "hour_of ts < 24"
proof -
  have "0 \<le> ts mod 86400" and "ts mod 86400 < 86400" by simp_all
  then have "(ts mod 86400) div 3600 < 24" by linarith
  then show ?thesis unfolding hour_of_def by linarith
qed

lemma initial_hourly_values_eq:
  "initial_hourly_values = (\<lambda>h. if h < 24 then Some [] else None)"
  unfolding initial_hourly_values_def map_of_map_restrict
  by (auto simp: restrict_map_def fun_eq_iff)

lemma group_by_hour_eq:
  "group_by_hour rs (\<lambda>h. if h < 24 then Some (f h) else None)
     = Some (\<lambda>h. if h < 24 then Some (f h @ values_at_hour h rs) else None)"
proof (induction rs arbitrary: f)
  case Nil
  show ?case by (simp add: values_at_hour_def cong: if_cong)
next
  case (Cons r rs)
  let ?k = "hour_of (timestamp r)"
  let ?f = "f(?k := f ?k @ [reading_value r])"
  have upd: "(\<lambda>h. if h < 24 then Some (f h) else None)(?k \<mapsto> f ?k @ [reading_value r])
               = (\<lambda>h. if h < 24 then Some (?f h) else None)"
    using hour_of_less_24 [of "timestamp r"] by (auto simp: fun_eq_iff)
  have app: "?f h @ values_at_hour h rs = f h @ values_at_hour h (r # rs)" for h
    by (simp add: values_at_hour_def)
  have "group_by_hour (r # rs) (\<lambda>h. if h < 24 then Some (f h) else None)
          = group_by_hour rs
              ((\<lambda>h. if h < 24 then Some (f h) else None)(?k \<mapsto> f ?k @ [reading_value r]))"
    using hour_of_less_24 [of "timestamp r"] by (simp add: Let_def del: fun_upd_apply)
  also have "\<dots> = Some (\<lambda>h. if h < 24 then Some (?f h @ values_at_hour h rs) else None)"
    unfolding upd by (rule Cons.IH)
  also have "\<dots> = Some (\<lambda>h. if h < 24 then Some (f h @ values_at_hour h (r # rs)) else None)"
    unfolding app ..
  finally show ?case .
qed

lemma np_percentile_eq:
  assumes "vs \<noteq> []" and "0 \<le> q" and "q \<le> 100"
  shows "np_percentile vs q = Some (linear_percentile vs q)"
  using assms unfolding np_percentile_def linear_percentile_def by simp

lemma hour_entry_eq: "hour_entry h vs = Some (entry_of h vs)"
  unfolding hour_entry_def entry_of_def by (simp add: np_percentile_eq)

lemma hourly_loop_eq:
  assumes "\<And>h. h \<in> set hs \<Longrightarrow> h < 24"
  shows "hourly_loop hs (\<lambda>h. if h < 24 then Some (g h) else None)
           = Some (map (\<lambda>h. entry_of h (g h)) hs)"
  using assms by (induction hs) (simp_all add: hour_entry_eq)

lemma get_glucose_agp_eq:
  "get_glucose_agp start_dt end_dt db =
     Some \<lparr>agp_total_readings = int (length (query_readings start_dt end_dt db)),
           hourly = map (\<lambda>h. entry_of h (values_at_hour h (query_readings start_dt end_dt db)))
                      [0..<24]\<rparr>"
proof -
  have "group_by_hour rs initial_hourly_values
          = Some (\<lambda>h. if h < 24 then Some (values_at_hour h rs) else None)" for rs
    unfolding initial_hourly_values_eq using group_by_hour_eq [of rs "\<lambda>h. []"]
    by (simp cong: if_cong)
  moreover have "hourly_loop [0..<24] (\<lambda>h. if h < 24 then Some (values_at_hour h rs) else None)
          = Some (map (\<lambda>h. entry_of h (values_at_hour h rs)) [0..<24])" for rs
    by (rule hourly_loop_eq) simp
  ultimately show ?thesis
    unfolding get_glucose_agp_def Let_def by simp
qed

lemma py_int_mono:
  assumes "x \<le> y"
  shows "py_int x \<le> py_int y"
proof -
  consider "0 \<le> x" | "x < 0" "0 \<le> y" | "x < 0" "y < 0" by linarith
  then show ?thesis
  proof cases
    case 1
    with assms show ?thesis unfolding py_int_def by (simp add: floor_mono)
  next
    case 2
    then have "\<lceil>x\<rceil> \<le> 0" and "0 \<le> \<lfloor>y\<rfloor>" by (simp_all add: ceiling_le_zero)
    moreover from 2 have "py_int x = \<lceil>x\<rceil>" and "py_int y = \<lfloor>y\<rfloor>"
      unfolding py_int_def by simp_all
    ultimately show ?thesis by linarith
  next
    case 3
    with assms show ?thesis unfolding py_int_def by (simp add: ceiling_mono)
  qed
qed

lemma interpolate_bounds:
  assumes "sorted a" and "0 \<le> pos" and "pos \<le> of_nat (length a - 1)" and "a \<noteq> []"
  shows "of_int (a ! nat \<lfloor>pos\<rfloor>) \<le> interpolate a pos"
    and "interpolate a pos \<le> of_int (a ! min (nat \<lfloor>pos\<rfloor> + 1) (length a - 1))"
proof -
  let ?prev = "nat \<lfloor>pos\<rfloor>"
  let ?nxt = "min (?prev + 1) (length a - 1)"
  let ?g = "pos - of_nat ?prev"
  have fl: "0 \<le> \<lfloor>pos\<rfloor>" using assms(2) by simp
  then have prev: "(of_nat ?prev :: rat) = of_int \<lfloor>pos\<rfloor>" by simp
  have g0: "0 \<le> ?g" and g1: "?g \<le> 1"
    unfolding prev by linarith+
  have "\<lfloor>pos\<rfloor> \<le> int (length a - 1)"
    using assms(3) by (simp add: floor_le_iff) 
  then have pl: "?prev \<le> length a - 1" using fl by linarith
  have "0 < length a" using assms(4) by simp
  then have nl: "?nxt < length a" by linarith
  have "?prev \<le> ?nxt" using pl by simp
  then have le: "a ! ?prev \<le> a ! ?nxt"
    using nl by (intro sorted_nth_mono [OF assms(1)])
  then have d0: "(0::rat) \<le> of_int (a ! ?nxt - a ! ?prev)" by simp
  have eq: "interpolate a pos = of_int (a ! ?prev) + of_int (a ! ?nxt - a ! ?prev) * ?g"
    unfolding interpolate_def Let_def ..
  show "of_int (a ! ?prev) \<le> interpolate a pos"
    unfolding eq using d0 g0 by simp
  have "of_int (a ! ?nxt - a ! ?prev) * ?g \<le> of_int (a ! ?nxt - a ! ?prev) * 1"
    using g1 d0 by (rule mult_left_mono)
  then show "interpolate a pos \<le> of_int (a ! ?nxt)"
    unfolding eq by simp
qed

lemma interpolate_mono:
  assumes "sorted a" and "a \<noteq> []" and "0 \<le> p" and "p \<le> q"
    and "q \<le> of_nat (length a - 1)"
  shows "interpolate a p \<le> interpolate a q"
proof -
  let ?n = "length a"
  have fp: "0 \<le> \<lfloor>p\<rfloor>" and fq: "0 \<le> \<lfloor>q\<rfloor>" using assms by simp_all
  have fle: "\<lfloor>p\<rfloor> \<le> \<lfloor>q\<rfloor>" using assms(4) by (rule floor_mono)
  have pb: "p \<le> of_nat (?n - 1)" and q0: "0 \<le> q" using assms by simp_all
  show ?thesis
  proof (cases "\<lfloor>p\<rfloor> = \<lfloor>q\<rfloor>")
    case True
    let ?prev = "nat \<lfloor>q\<rfloor>"
    let ?nxt = "min (?prev + 1) (?n - 1)"
    have "\<lfloor>q\<rfloor> \<le> int (?n - 1)"
      using assms(5) by (simp add: floor_le_iff)
    then have pl: "?prev \<le> ?n - 1" using fq by linarith
    have "0 < ?n" using assms(2) by simp
    then have nl: "?nxt < ?n" by linarith
    have "?prev \<le> ?nxt" using pl by simp
    then have "a ! ?prev \<le> a ! ?nxt"
      using nl by (intro sorted_nth_mono [OF assms(1)])
    then have d0: "(0::rat) \<le> of_int (a ! ?nxt - a ! ?prev)" by simp
    have "p - of_nat ?prev \<le> q - of_nat ?prev" using assms(4) by simp
    then have "of_int (a ! ?nxt - a ! ?prev) * (p - of_nat ?prev)
                 \<le> of_int (a ! ?nxt - a ! ?prev) * (q - of_nat ?prev)"
      using d0 by (rule mult_left_mono)
    then show ?thesis
      unfolding interpolate_def Let_def True by simp
  next
    case False
    with fle have lt: "\<lfloor>p\<rfloor> < \<lfloor>q\<rfloor>" by simp
    let ?nxt = "min (nat \<lfloor>p\<rfloor> + 1) (?n - 1)"
    have "\<lfloor>q\<rfloor> \<le> int (?n - 1)"
      using assms(5) by (simp add: floor_le_iff)
    then have ql: "nat \<lfloor>q\<rfloor> < ?n" using fq assms(2) by (cases a) auto
    have "?nxt \<le> nat \<lfloor>q\<rfloor>" using lt fp by (simp add: min_def) linarith
    then have "a ! ?nxt \<le> a ! nat \<lfloor>q\<rfloor>"
      using ql by (intro sorted_nth_mono [OF assms(1)])
    then have mid: "(of_int (a ! ?nxt) :: rat) \<le> of_int (a ! nat \<lfloor>q\<rfloor>)" by simp
    have "interpolate a p \<le> of_int (a ! ?nxt)"
      by (rule interpolate_bounds(2) [OF assms(1) assms(3) pb assms(2)])
    also note mid
    also have "of_int (a ! nat \<lfloor>q\<rfloor>) \<le> interpolate a q"
      by (rule interpolate_bounds(1) [OF assms(1) q0 assms(5) assms(2)])
    finally show ?thesis .
  qed
qed

lemma linear_percentile_mono:
  assumes "vs \<noteq> []" and "0 \<le> p" and "p \<le> q" and "q \<le> 100"
  shows "linear_percentile vs p \<le> linear_percentile vs q"
  unfolding linear_percentile_def
proof (rule interpolate_mono)
  let ?m = "of_nat (length vs - 1) :: rat"
  have m: "0 \<le> ?m" by simp
  show "sorted (sort vs)" by simp
  show "sort vs \<noteq> []" using assms(1) by (metis length_sort length_0_conv)
  show "0 \<le> p / 100 * ?m" using assms(2) by simp
  show "p / 100 * ?m \<le> q / 100 * ?m"
    using assms(3) m by (simp add: mult_right_mono divide_right_mono)
  have "q / 100 * ?m \<le> 1 * ?m"
    using assms(4) m by (intro mult_right_mono) simp_all
  then show "q / 100 * ?m \<le> of_nat (length (sort vs) - 1)" by simp
qed


lemma hourly_nth:
  assumes "h < 24"
  shows "hourly (the (get_glucose_agp start_dt end_dt db)) ! h
           = entry_of h (values_at_hour h (query_readings start_dt end_dt db))"
  unfolding get_glucose_agp_eq using assms by simp



text \<open>
  Claim C7: for every store and window the profile is returned (no error), with exactly
  24 entries whose hours are 0, 1, ..., 23 in this order; each entry counts the
  observations of its hour, and an hour without observations is emitted with count 0 and
  all five percentiles null.
\<close>

theorem agp_24_entries:
  "\<exists>resp. get_glucose_agp start_dt end_dt db = Some resp
      \<and> agp_total_readings resp = int (length (query_readings start_dt end_dt db))
      \<and> length (hourly resp) = 24
      \<and> map hour (hourly resp) = [0..<24]
      \<and> (\<forall>h<24. hour_count (hourly resp ! h)
                     = int (length (values_at_hour h (query_readings start_dt end_dt db)))
                  \<and> (values_at_hour h (query_readings start_dt end_dt db) = [] \<longrightarrow>
                       hourly resp ! h = empty_entry h))"
proof -
  let ?rs = "query_readings start_dt end_dt db"
  let ?resp = "\<lparr>agp_total_readings = int (length ?rs),
                hourly = map (\<lambda>h. entry_of h (values_at_hour h ?rs)) [0..<24]\<rparr>"
  have "hour (entry_of h vs) = h" for h vs
    unfolding entry_of_def by simp
  then have hours: "map hour (hourly ?resp) = [0..<24]"
    by (simp add: comp_def)
  have nth: "hourly ?resp ! h = entry_of h (values_at_hour h ?rs)" if "h < 24" for h
    using that by simp
  have cnt: "hour_count (entry_of h vs) = int (length vs)" for h vs
    unfolding entry_of_def by simp
  have emp: "entry_of h [] = empty_entry h" for h
    unfolding entry_of_def empty_entry_def by simp
  have "\<forall>h<24. hour_count (hourly ?resp ! h) = int (length (values_at_hour h ?rs))
                 \<and> (values_at_hour h ?rs = [] \<longrightarrow> hourly ?resp ! h = empty_entry h)"
    using nth cnt emp by (metis (no_types, lifting))
  moreover have "length (hourly ?resp) = 24" by simp
  moreover have "agp_total_readings ?resp = int (length ?rs)" by simp
  ultimately show ?thesis
    using hours get_glucose_agp_eq [of start_dt end_dt db] by blast
qed

lemma values_db_agp:
  "values_at_hour 0 (query_readings 0 172800 db_agp) = []"
  "values_at_hour 8 (query_readings 0 172800 db_agp) = [80, 90]"
  by (simp_all add: values_at_hour_def query_readings_def db_agp_def hour_of_def)


lemma entry_80_90:
  "entry_of h [80, 90] =
     \<lparr>hour = h, p10 = Some 81, p25 = Some 82, median = Some 85, p75 = Some 87,
      p90 = Some 89, hour_count = 2\<rparr>"
proof -
  have lp: "linear_percentile [80, 90] 10 = 81" "linear_percentile [80, 90] 25 = 165 / 2"
    "linear_percentile [80, 90] 50 = 85" "linear_percentile [80, 90] 75 = 175 / 2"
    "linear_percentile [80, 90] 90 = 89"
    by code_simp+
  have "py_int (linear_percentile [80, 90] 10) = 81"
    "py_int (linear_percentile [80, 90] 25) = 82"
    "py_int (linear_percentile [80, 90] 50) = 85"
    "py_int (linear_percentile [80, 90] 75) = 87"
    "py_int (linear_percentile [80, 90] 90) = 89"
    unfolding lp by (simp_all add: py_int_def)
  then show ?thesis
    unfolding entry_of_def by simp
qed


theorem agp_24_entries_witness:
  "values_at_hour 0 (query_readings 0 172800 db_agp) = []
   \<and> (\<exists>resp. get_glucose_agp 0 172800 db_agp = Some resp
          \<and> agp_total_readings resp = 4
          \<and> length (hourly resp) = 24
          \<and> map hour (hourly resp) = [0..<24]
          \<and> hourly resp ! 0 = empty_entry 0
          \<and> hour_count (hourly resp ! 8) = 2)"
proof -
  have len: "length (query_readings 0 172800 db_agp) = 4"
    by (simp add: query_readings_def db_agp_def)
  from agp_24_entries [of 0 172800 db_agp] obtain resp
    where r: "get_glucose_agp 0 172800 db_agp = Some resp"
      "agp_total_readings resp = int (length (query_readings 0 172800 db_agp))"
      "length (hourly resp) = 24" "map hour (hourly resp) = [0..<24]"
      and all: "\<forall>h<24. hour_count (hourly resp ! h)
                     = int (length (values_at_hour h (query_readings 0 172800 db_agp)))
                  \<and> (values_at_hour h (query_readings 0 172800 db_agp) = [] \<longrightarrow>
                       hourly resp ! h = empty_entry h)"
    by blast
  from all have "hourly resp ! 0 = empty_entry 0"
    using values_db_agp(1) by simp
  moreover from all have "hour_count (hourly resp ! 8) = 2"
    using values_db_agp(2) by simp
  ultimately show ?thesis
    using r len values_db_agp(1) by auto
qed




text \<open>
  Claim C6: in every profile, an hour entry with a positive count has all five
  percentiles, ordered \<open>p10 \<le> p25 \<le> median \<le> p75 \<le> p90\<close>; and an hour whose observed
  values are 80 and 90 has median 85.
\<close>

theorem agp_percentiles_ordered:
  assumes "h < 24"
  shows "\<exists>resp. get_glucose_agp start_dt end_dt db = Some resp
           \<and> (0 < hour_count (hourly resp ! h) \<longrightarrow>
                (\<exists>a b c d e. p10 (hourly resp ! h) = Some a \<and> p25 (hourly resp ! h) = Some b
                    \<and> median (hourly resp ! h) = Some c \<and> p75 (hourly resp ! h) = Some d
                    \<and> p90 (hourly resp ! h) = Some e
                    \<and> a \<le> b \<and> b \<le> c \<and> c \<le> d \<and> d \<le> e))
           \<and> (values_at_hour h (query_readings start_dt end_dt db) = [80, 90] \<longrightarrow>
                median (hourly resp ! h) = Some 85)"
proof -
  let ?rs = "query_readings start_dt end_dt db"
  let ?vs = "values_at_hour h ?rs"
  let ?resp = "\<lparr>agp_total_readings = int (length ?rs),
                hourly = map (\<lambda>h. entry_of h (values_at_hour h ?rs)) [0..<24]\<rparr>"
  have nth: "hourly ?resp ! h = entry_of h ?vs"
    using assms by simp
  have ord: "\<exists>a b c d e. p10 (entry_of h ?vs) = Some a \<and> p25 (entry_of h ?vs) = Some b
      \<and> median (entry_of h ?vs) = Some c \<and> p75 (entry_of h ?vs) = Some d
      \<and> p90 (entry_of h ?vs) = Some e \<and> a \<le> b \<and> b \<le> c \<and> c \<le> d \<and> d \<le> e"
    if "0 < hour_count (entry_of h ?vs)"
  proof -
    from that have ne: "?vs \<noteq> []"
      unfolding entry_of_def by (auto split: if_splits)
    have step: "py_int (linear_percentile ?vs p) \<le> py_int (linear_percentile ?vs q)"
      if "0 \<le> p" "p \<le> q" "q \<le> 100" for p q
      by (rule py_int_mono) (rule linear_percentile_mono [OF ne that])
    have "py_int (linear_percentile ?vs 10) \<le> py_int (linear_percentile ?vs 25)"
      "py_int (linear_percentile ?vs 25) \<le> py_int (linear_percentile ?vs 50)"
      "py_int (linear_percentile ?vs 50) \<le> py_int (linear_percentile ?vs 75)"
      "py_int (linear_percentile ?vs 75) \<le> py_int (linear_percentile ?vs 90)"
      by (rule step; simp)+
    then show ?thesis
      unfolding entry_of_def using ne by simp
  qed
  have med: "median (entry_of h ?vs) = Some 85" if "?vs = [80, 90]"
    unfolding that entry_80_90 by simp
  show ?thesis
    using get_glucose_agp_eq [of start_dt end_dt db] ord med
    unfolding nth [symmetric] by blast
qed

theorem agp_percentiles_ordered_witness:
  "(8::nat) < 24
   \<and> values_at_hour 8 (query_readings 0 172800 db_agp) = [80, 90]
   \<and> (\<exists>resp. get_glucose_agp 0 172800 db_agp = Some resp
          \<and> 0 < hour_count (hourly resp ! 8)
          \<and> (\<exists>a b c d e. p10 (hourly resp ! 8) = Some a \<and> p25 (hourly resp ! 8) = Some b
                \<and> median (hourly resp ! 8) = Some c \<and> p75 (hourly resp ! 8) = Some d
                \<and> p90 (hourly resp ! 8) = Some e
                \<and> a \<le> b \<and> b \<le> c \<and> c \<le> d \<and> d \<le> e)
          \<and> median (hourly resp ! 8) = Some 85)"
proof -
  have h: "(8::nat) < 24" by simp
  from agp_percentiles_ordered [OF h, of 0 172800 db_agp] obtain resp
    where r: "get_glucose_agp 0 172800 db_agp = Some resp"
      and o: "0 < hour_count (hourly resp ! 8) \<longrightarrow>
                (\<exists>a b c d e. p10 (hourly resp ! 8) = Some a \<and> p25 (hourly resp ! 8) = Some b
                    \<and> median (hourly resp ! 8) = Some c \<and> p75 (hourly resp ! 8) = Some d
                    \<and> p90 (hourly resp ! 8) = Some e
                    \<and> a \<le> b \<and> b \<le> c \<and> c \<le> d \<and> d \<le> e)"
      and m: "values_at_hour 8 (query_readings 0 172800 db_agp) = [80, 90] \<longrightarrow>
                median (hourly resp ! 8) = Some 85"
    by blast
  have "hourly resp ! 8 = entry_of 8 [80, 90]"
    using hourly_nth [OF h, of 0 172800 db_agp] r by (simp add: values_db_agp)
  then have c: "0 < hour_count (hourly resp ! 8)"
    by (simp add: entry_80_90)
  from o c have ord: "\<exists>a b c d e. p10 (hourly resp ! 8) = Some a \<and> p25 (hourly resp ! 8) = Some b
      \<and> median (hourly resp ! 8) = Some c \<and> p75 (hourly resp ! 8) = Some d
      \<and> p90 (hourly resp ! 8) = Some e \<and> a \<le> b \<and> b \<le> c \<and> c \<le> d \<and> d \<le> e" ..
  from m values_db_agp(2) have med: "median (hourly resp ! 8) = Some 85" ..
  from r c ord med have "\<exists>resp. get_glucose_agp 0 172800 db_agp = Some resp
          \<and> 0 < hour_count (hourly resp ! 8)
          \<and> (\<exists>a b c d e. p10 (hourly resp ! 8) = Some a \<and> p25 (hourly resp ! 8) = Some b
                \<and> median (hourly resp ! 8) = Some c \<and> p75 (hourly resp ! 8) = Some d
                \<and> p90 (hourly resp ! 8) = Some e
                \<and> a \<le> b \<and> b \<le> c \<and> c \<le> d \<and> d \<le> e)
          \<and> median (hourly resp ! 8) = Some 85"
    by (intro exI [of _ resp] conjI)
  with h values_db_agp(2) show ?thesis by (intro conjI)
qed

subsection \<open>Trend line\<close>

text \<open>
  Claim C9 does not hold of the code: the guard \<^verbatim>\<open>denom === 0\<close> tests a rounded double.
  For three points that share the x-value 0.7 the rounded denominator is \<open>2^-50\<close>, not
  0, and a line of slope 16 is returned where the claim says null; for the three distinct
  x-values \<open>10^8\<close>, \<open>10^8 + 1\<close>, \<open>10^8 + 2\<close> the rounded denominator is 0 and null is
  returned where the claim says the least-squares line (slope 1).
\<close>

theorem linearRegression_guard_on_rounded_denominator:
  "2 \<le> length pts_const \<and> all_x_equal pts_const
   \<and> linearRegression pts_const
       = Some \<lparr>slope = 16, intercept = - (7205759403792789 / 2 ^ 51)\<rparr>
   \<and> 2 \<le> length pts_far \<and> \<not> all_x_equal pts_far
   \<and> linearRegression pts_far = None"
proof -
  have "linearRegression pts_const
       = Some \<lparr>slope = 16, intercept = - (7205759403792789 / 2 ^ 51)\<rparr>"
    by code_simp
  moreover have "linearRegression pts_far = None"
    by code_simp
  moreover have "2 \<le> length pts_const \<and> all_x_equal pts_const"
    by (simp add: pts_const_def all_x_equal_def)
  moreover have "2 \<le> length pts_far \<and> \<not> all_x_equal pts_far"
    by (simp add: pts_far_def all_x_equal_def)
  ultimately show ?thesis by simp
qed

end
